theory Spec2Isabelle
  imports Main "HOL-Library.Word" "HOL-Library.Log_Nat"
begin

section \<open>xilt: the access-log ingestion pipeline\<close>

text \<open>
  A shallow embedding of the Go sources of \<^verbatim>\<open>go.vxn.dev/xilt\<close>: the reader
  (\<^verbatim>\<open>internal/reader/reader.go\<close>), the record parser
  (\<^verbatim>\<open>internal/parser/parser.go\<close>), the writer (\<^verbatim>\<open>internal/database\<close>),
  the worker-pool sizing function and the orchestration of \<^verbatim>\<open>main\<close>.
  Strings are byte strings (\<^typ>\<open>string\<close>), Go's \<^verbatim>\<open>int\<close> is the
  64-bit one, and every value that the Go standard library or the storage engine
  decides (what a file holds, which statement fails) enters as an explicit input.
\<close>

subsection \<open>The logger: pkg/logger/logger.go\<close>

text \<open>
  The \<^verbatim>\<open>Logger\<close> interface has four methods. A call is recorded with its
  literal first argument (the message or the format string of the source) and the
  values passed after it. \<^verbatim>\<open>Println\<close> and \<^verbatim>\<open>Printf\<close> always
  print; \<^verbatim>\<open>Debug\<close> and \<^verbatim>\<open>Debugf\<close> print only in verbose mode.
  The sink of a component is the list of the calls it made, oldest first.
\<close>

datatype go_error =
    ErrSyntax string          \<comment> \<open>strconv: invalid syntax, with the offending text\<close>
  | ErrRange string           \<comment> \<open>strconv: value out of range\<close>
  | ErrTimeParse string       \<comment> \<open>time.Parse: the text is not of the layout\<close>
  | ErrInvalidLogFormat string \<comment> \<open>parseLog: the line does not match the pattern\<close>
  | ErrTxDone                 \<comment> \<open>database/sql: the transaction is already finished\<close>
  | ErrDriver                 \<comment> \<open>any failure the storage engine reports\<close>

datatype reader_error =
    FileDoesNotExist          \<comment> \<open>\<^verbatim>\<open>error: file '%s' does not exist\<close>\<close>
  | InsufficientPermissions   \<comment> \<open>\<^verbatim>\<open>error: insufficient permissions to read file '%s'\<close>\<close>
  | ErrorOpeningFile          \<comment> \<open>\<^verbatim>\<open>error opening file '%s': %v\<close>\<close>
  | ErrorReadingFile          \<comment> \<open>\<^verbatim>\<open>error reading file '%s': %v\<close>\<close>

datatype log_arg = AInt int | AStr string | AErr go_error | AReadErr reader_error

datatype log_call =
    Println string "log_arg list"
  | Printf string "log_arg list"
  | Debug string "log_arg list"
  | Debugf string "log_arg list"

type_synonym sink = "log_call list"

text \<open>What \<^verbatim>\<open>logger.go\<close> writes to the standard logger for a call.\<close>

fun printed :: "bool \<Rightarrow> log_call \<Rightarrow> bool" where
  "printed verbose (Println m as) = True"
| "printed verbose (Printf m as) = True"
| "printed verbose (Debug m as) = verbose"
| "printed verbose (Debugf m as) = verbose"

subsection \<open>The reader: internal/reader/reader.go\<close>

text \<open>
  The input file is what \<^verbatim>\<open>os.Open\<close> answers and what the
  \<^verbatim>\<open>bufio.Scanner\<close> then yields: the lines in order, and whether the scan
  ended at end of file or with a read error (\<^verbatim>\<open>scanner.Err()\<close>).
\<close>

datatype open_result = OpenOk | OpenNotExist | OpenPermission | OpenOtherError

record input_file =
  open_res :: open_result
  scan_lines :: "string list"
  scan_failed :: bool

text \<open>
  Line 51, and line 62 after every full batch: \<^verbatim>\<open>make([]string, 0, r.cfg.BatchSize)\<close>.
  The capacity is not a constant, so the slice is made by \<^verbatim>\<open>runtime.makeslice\<close>,
  which panics with \<^verbatim>\<open>makeslice: cap out of range\<close> when the capacity is
  negative or its elements need more than \<^verbatim>\<open>maxAlloc\<close> bytes. A string
  header takes 16 bytes, and \<^verbatim>\<open>maxAlloc\<close> is \<open>2\<^sup>4\<^sup>8\<close> on the 64-bit
  platforms, so the greatest capacity that does not panic is \<open>2\<^sup>4\<^sup>4\<close>. Within
  the limit the runtime goes on to allocate the slice. That the machine has the
  memory is taken for granted, here as for every other allocation of the program: a
  machine without it ends the process with a fatal error.
\<close>

definition maxAlloc :: int where
  "maxAlloc = 2 ^ 48"

definition sizeof_string :: int where
  "sizeof_string = 16"

definition makeslice_panics :: "int \<Rightarrow> bool" where
  "makeslice_panics cap \<longleftrightarrow> cap < 0 \<or> sizeof_string * cap > maxAlloc"

text \<open>
  What \<^verbatim>\<open>ReadAndBatch\<close> does that its caller can see, in the order it does
  it: each send of a batch on the channel, and then either the value it returns or
  the panic of \<^verbatim>\<open>makeslice\<close>, which nothing recovers from and which ends the
  process.
\<close>

datatype reader_event = Send "string list" | Return "reader_error option" | PanicMakeslice

text \<open>
  The scan loop, lines 56 to 65: \<^verbatim>\<open>batch\<close> is the batch being filled and
  \<^verbatim>\<open>sent\<close> the events so far.
\<close>

fun scan_loop :: "int \<Rightarrow> string list \<Rightarrow> string list \<Rightarrow> reader_event list
    \<Rightarrow> string list \<times> reader_event list" where
  "scan_loop batchSize [] batch sent = (batch, sent)"
| "scan_loop batchSize (line # rest) batch sent =
     (if length line > 0 then
        (let batch' = batch @ [line] in
         if int (length batch') = batchSize
         then scan_loop batchSize rest [] (sent @ [Send batch'])
         else scan_loop batchSize rest batch' sent)
      else scan_loop batchSize rest batch sent)"

definition ReadAndBatch :: "int \<Rightarrow> input_file \<Rightarrow> reader_event list" where
  "ReadAndBatch batchSize f =
     (case open_res f of
        OpenNotExist \<Rightarrow> [Return (Some FileDoesNotExist)]
      | OpenPermission \<Rightarrow> [Return (Some InsufficientPermissions)]
      | OpenOtherError \<Rightarrow> [Return (Some ErrorOpeningFile)]
      | OpenOk \<Rightarrow>
          if makeslice_panics batchSize then [PanicMakeslice]
          else
            (let (batch, sent) = scan_loop batchSize (scan_lines f) [] [];
                 sent' = (if length batch > 0 then sent @ [Send batch] else sent)
             in if scan_failed f then sent' @ [Return (Some ErrorReadingFile)]
                else sent' @ [Return None]))"

subsection \<open>The parsed record: internal/parser/parser.go, lines 15 to 28\<close>

record Log =
  IP :: string
  Identity :: string
  User :: string
  Time :: string
  TimestampUTC :: string
  Method :: string
  Route :: string
  Params :: string
  ResponseCode :: "16 word"
  BytesSent :: "32 word"
  Referer :: string
  Agent :: string

subsection \<open>The writer: internal/database, InsertBatch\<close>

text \<open>
  The storage engine is reached through \<^verbatim>\<open>database/sql\<close>. What it decides for
  one batch is an input: whether \<^verbatim>\<open>Begin\<close>, \<^verbatim>\<open>Prepare\<close>,
  the \<^verbatim>\<open>Exec\<close> of the record at a position of the batch, the statement's
  \<^verbatim>\<open>Close\<close>, \<^verbatim>\<open>Rollback\<close> and \<^verbatim>\<open>Commit\<close> fail.
\<close>

record tx_env =
  begin_fails :: bool
  prepare_fails :: bool
  exec_fails :: "nat \<Rightarrow> bool"
  close_fails :: bool
  rollback_fails :: bool
  commit_fails :: bool

text \<open>
  A transaction of \<^verbatim>\<open>database/sql\<close>: the rows inserted and not yet
  committed, and the \<^verbatim>\<open>done\<close> flag that \<^verbatim>\<open>Commit\<close> and
  \<^verbatim>\<open>Rollback\<close> both set first, whatever the driver then answers. Once it
  is set, either call returns \<^verbatim>\<open>ErrTxDone\<close> and leaves the store alone.
\<close>

record tx =
  pending :: "Log list"
  tx_done :: bool

datatype db_call = CBegin | CPrepare | CExec Log | CRollback | CStmtClose | CCommit

text \<open>
  The writer's state: the committed rows in the order of their autoincrement keys, the
  calls made to the logger, and the calls made to the store.
\<close>

record writer =
  rows :: "Log list"
  wlog :: sink
  calls :: "db_call list"

definition conn_Begin :: "tx_env \<Rightarrow> go_error + tx" where
  "conn_Begin env =
     (if begin_fails env then Inl ErrDriver else Inr \<lparr>pending = [], tx_done = False\<rparr>)"

definition tx_Prepare :: "tx_env \<Rightarrow> tx \<Rightarrow> go_error option" where
  "tx_Prepare env t =
     (if tx_done t then Some ErrTxDone
      else if prepare_fails env then Some ErrDriver else None)"

definition stmt_Exec :: "tx_env \<Rightarrow> nat \<Rightarrow> tx \<Rightarrow> Log \<Rightarrow> go_error option \<times> tx" where
  "stmt_Exec env i t l =
     (if tx_done t then (Some ErrTxDone, t)
      else if exec_fails env i then (Some ErrDriver, t)
      else (None, t\<lparr>pending := pending t @ [l]\<rparr>))"

definition tx_Rollback :: "tx_env \<Rightarrow> tx \<Rightarrow> go_error option \<times> tx" where
  "tx_Rollback env t =
     (if tx_done t then (Some ErrTxDone, t)
      else (if rollback_fails env then Some ErrDriver else None,
            t\<lparr>pending := [], tx_done := True\<rparr>))"

definition stmt_Close :: "tx_env \<Rightarrow> go_error option" where
  "stmt_Close env = (if close_fails env then Some ErrDriver else None)"

definition tx_Commit :: "tx_env \<Rightarrow> tx \<Rightarrow> Log list \<Rightarrow> go_error option \<times> Log list" where
  "tx_Commit env t committed =
     (if tx_done t then (Some ErrTxDone, committed)
      else if commit_fails env then (Some ErrDriver, committed)
      else (None, committed @ pending t))"

text \<open>
  Lines 121 to 130: the loop over the records of the batch. The record at position
  \<^verbatim>\<open>i\<close> is executed; on a failure the failure is logged, the transaction
  rolled back (a failure of that logged too) and the loop left by \<^verbatim>\<open>break\<close>.
\<close>

fun exec_loop :: "tx_env \<Rightarrow> nat \<Rightarrow> Log list \<Rightarrow> tx \<times> writer \<Rightarrow> tx \<times> writer" where
  "exec_loop env i [] (t, w) = (t, w)"
| "exec_loop env i (parsedLog # rest) (t, w) =
     (case stmt_Exec env i t parsedLog of
        (Some err, t1) \<Rightarrow>
          (let w1 = w\<lparr>calls := calls w @ [CExec parsedLog],
                      wlog := wlog w @ [Printf ''write routine failed to insert: %v'' [AErr err]]\<rparr>
           in case tx_Rollback env t1 of
                (Some err2, t2) \<Rightarrow>
                  (t2, w1\<lparr>calls := calls w1 @ [CRollback],
                          wlog := wlog w1 @
                            [Printf ''write routine failed to roll back transaction: %v'' [AErr err2]]\<rparr>)
              | (None, t2) \<Rightarrow> (t2, w1\<lparr>calls := calls w1 @ [CRollback]\<rparr>))
      | (None, t1) \<Rightarrow>
          exec_loop env (Suc i) rest (t1, w\<lparr>calls := calls w @ [CExec parsedLog]\<rparr>))"

text \<open>Lines 105 to 140: the body of the loop over the channel, for one batch.\<close>

definition insert_one :: "tx_env \<Rightarrow> Log list \<Rightarrow> writer \<Rightarrow> writer" where
  "insert_one env parsedLogBatch w0 =
     (let w = w0\<lparr>wlog := wlog w0 @ [Debug ''write routine beginning insert'' []],
                 calls := calls w0 @ [CBegin]\<rparr>
      in case conn_Begin env of
           Inl err \<Rightarrow>
             w\<lparr>wlog := wlog w @ [Printf ''write routine failed to start transaction: %v'' [AErr err]]\<rparr>
         | Inr t \<Rightarrow>
             (let wp = w\<lparr>calls := calls w @ [CPrepare]\<rparr>
              in case tx_Prepare env t of
                   Some err \<Rightarrow>
                     (let w1 = wp\<lparr>wlog := wlog wp @
                                  [Printf ''write routine failed to prepare statement: %v'' [AErr err]],
                                 calls := calls wp @ [CRollback]\<rparr>
                      in case fst (tx_Rollback env t) of
                           Some err2 \<Rightarrow>
                             w1\<lparr>wlog := wlog w1 @
                               [Printf ''write routine failed to roll back transaction: %v'' [AErr err2]]\<rparr>
                         | None \<Rightarrow> w1)
                 | None \<Rightarrow>
                     (let (t1, w1) = exec_loop env 0 parsedLogBatch (t, wp);
                          w2 = w1\<lparr>calls := calls w1 @ [CStmtClose]\<rparr>;
                          w3 = (case stmt_Close env of
                                  Some err \<Rightarrow>
                                    w2\<lparr>wlog := wlog w2 @
                                      [Println ''write routine failed to close statement: %v'' [AErr err]]\<rparr>
                                | None \<Rightarrow> w2);
                          w4 = w3\<lparr>calls := calls w3 @ [CCommit]\<rparr>
                      in case tx_Commit env t1 (rows w4) of
                           (Some err, committed) \<Rightarrow>
                             w4\<lparr>rows := committed,
                                wlog := wlog w4 @
                                  [Println ''write routine failed to commit transaction: %v'' [AErr err]]\<rparr>
                         | (None, committed) \<Rightarrow>
                             w4\<lparr>rows := committed,
                                wlog := wlog w4 @
                                  [Debugf ''write routine successfully inserted batch of %d logs''
                                     [AInt (int (length parsedLogBatch))]]\<rparr>)))"

text \<open>
  Lines 101 to 142: \<^verbatim>\<open>InsertBatch\<close> takes the batches from the channel in
  the order they arrive until the channel is closed; each arrives with what the store
  decides for it.
\<close>

fun InsertBatch :: "(Log list \<times> tx_env) list \<Rightarrow> writer \<Rightarrow> writer" where
  "InsertBatch [] w = w"
| "InsertBatch ((parsedLogBatch, env) # later) w =
     InsertBatch later (insert_one env parsedLogBatch w)"

text \<open>
  Values for examples: the record that the tests of the parser and of the writer
  expect for the combined-format test line, a store on which nothing fails, and the
  writer before its first batch.
\<close>

definition test_record :: Log where
  "test_record = \<lparr>IP = ''127.0.0.1'', Identity = ''user-identifier'', User = ''frank'',
     Time = ''10/Oct/2000:13:55:36 -0700'', TimestampUTC = ''2000-10-10T20:55:36Z'',
     Method = ''GET'', Route = ''/apache_pb.gif'', Params = ''param1=test'',
     ResponseCode = 200, BytesSent = 2326, Referer = ''referrer'', Agent = ''agent''\<rparr>"

definition env_ok :: tx_env where
  "env_ok = \<lparr>begin_fails = False, prepare_fails = False, exec_fails = (\<lambda>i. False),
     close_fails = False, rollback_fails = False, commit_fails = False\<rparr>"

definition writer_init :: writer where
  "writer_init = \<lparr>rows = [], wlog = [], calls = []\<rparr>"

subsection \<open>The line pattern: Go's regexp on defaultRegex\<close>

text \<open>
  \<^verbatim>\<open>parseLog\<close> matches the line against \<^verbatim>\<open>defaultRegex\<close> with
  \<^verbatim>\<open>FindStringSubmatch\<close> of Go's \<^verbatim>\<open>regexp\<close> package, which returns
  the leftmost match and, among the leftmost, the one a backtracking search finds
  first. The pattern is a sequence of items: a character class once, a class under a
  greedy star or a greedy question mark, the two ends of a capture group, and the
  two anchors. Characters are bytes; every class of the pattern holds all bytes
  above 127 or none, so the bytes of a multi-byte rune are taken together.
\<close>

datatype cclass =
    AnyChar        \<comment> \<open>\<^verbatim>\<open>.\<close>: any character but the line feed\<close>
  | Space          \<comment> \<open>\<^verbatim>\<open>\s\<close>: tab, line feed, form feed, carriage return, space\<close>
  | NonSpace       \<comment> \<open>\<^verbatim>\<open>\S\<close>\<close>
  | NotQuote       \<comment> \<open>\<^verbatim>\<open>[^"]\<close>\<close>
  | Lit char

datatype item =
    One cclass | Star cclass | Opt cclass | Open nat | Close nat | Bol | Eol

definition is_space :: "char \<Rightarrow> bool" where
  "is_space c = (c = CHR 0x09 \<or> c = CHR 0x0A \<or> c = CHR 0x0C \<or> c = CHR 0x0D \<or> c = CHR '' '')"

fun accepts :: "cclass \<Rightarrow> char \<Rightarrow> bool" where
  "accepts AnyChar c = (c \<noteq> CHR 0x0A)"
| "accepts Space c = is_space c"
| "accepts NonSpace c = (\<not> is_space c)"
| "accepts NotQuote c = (c \<noteq> CHR 0x22)"
| "accepts (Lit a) c = (c = a)"

text \<open>
  \<^verbatim>\<open>^(?<ip>\S*).* (?<identity>\S*) (?<user>\S*) \[(?<timestamp>.*)\]\s"(?<method>\S*)\s(?<route>\S*)\s(?<protocol>[^"]*)"\s(?<response>\S*)\s(?<bytes>\S*)\s?"?(?<referrer>[^"]*)"?\s?"?(?<agent>[^"]*)"?\s*$\<close>
\<close>

definition defaultRegex :: "item list" where
  "defaultRegex =
     [Bol, Open 1, Star NonSpace, Close 1, Star AnyChar, One (Lit CHR '' ''),
      Open 2, Star NonSpace, Close 2, One (Lit CHR '' ''),
      Open 3, Star NonSpace, Close 3, One (Lit CHR '' ''),
      One (Lit CHR ''[''), Open 4, Star AnyChar, Close 4, One (Lit CHR '']''),
      One Space, One (Lit CHR 0x22),
      Open 5, Star NonSpace, Close 5, One Space,
      Open 6, Star NonSpace, Close 6, One Space,
      Open 7, Star NotQuote, Close 7, One (Lit CHR 0x22), One Space,
      Open 8, Star NonSpace, Close 8, One Space,
      Open 9, Star NonSpace, Close 9,
      Opt Space, Opt (Lit CHR 0x22), Open 10, Star NotQuote, Close 10, Opt (Lit CHR 0x22),
      Opt Space, Opt (Lit CHR 0x22), Open 11, Star NotQuote, Close 11, Opt (Lit CHR 0x22),
      Star Space, Eol]"

text \<open>
  The backtracking search from one start: \<^verbatim>\<open>s\<close> is the text still to be
  read, \<^verbatim>\<open>pos\<close> the number of characters read, \<^verbatim>\<open>cap\<close> the
  positions of the groups (group \<^verbatim>\<open>i\<close> from \<^verbatim>\<open>cap[2i]\<close> to
  \<^verbatim>\<open>cap[2i+1]\<close>). A greedy item first tries to take a character.
\<close>

fun run :: "item list \<Rightarrow> string \<Rightarrow> nat \<Rightarrow> nat list \<Rightarrow> nat list option" where
  "run [] s pos cap = Some (cap[1 := pos])"
| "run (Bol # r) s pos cap = (if pos = 0 then run r s pos cap else None)"
| "run (Eol # r) s pos cap = (if s = [] then run r s pos cap else None)"
| "run (Open i # r) s pos cap = run r s pos (cap[2 * i := pos])"
| "run (Close i # r) s pos cap = run r s pos (cap[2 * i + 1 := pos])"
| "run (One c # r) [] pos cap = None"
| "run (One c # r) (x # xs) pos cap =
     (if accepts c x then run r xs (Suc pos) cap else None)"
| "run (Opt c # r) [] pos cap = run r [] pos cap"
| "run (Opt c # r) (x # xs) pos cap =
     (if accepts c x
      then (case run r xs (Suc pos) cap of
              Some m \<Rightarrow> Some m
            | None \<Rightarrow> run r (x # xs) pos cap)
      else run r (x # xs) pos cap)"
| "run (Star c # r) [] pos cap = run r [] pos cap"
| "run (Star c # r) (x # xs) pos cap =
     (if accepts c x
      then (case run (Star c # r) xs (Suc pos) cap of
              Some m \<Rightarrow> Some m
            | None \<Rightarrow> run r (x # xs) pos cap)
      else run r (x # xs) pos cap)"

text \<open>The leftmost match: the starts are tried from left to right.\<close>

fun find_from :: "item list \<Rightarrow> string \<Rightarrow> nat \<Rightarrow> nat list option" where
  "find_from re [] pos = run re [] pos ((replicate 24 0)[0 := pos])"
| "find_from re (x # xs) pos =
     (case run re (x # xs) pos ((replicate 24 0)[0 := pos]) of
        Some m \<Rightarrow> Some m
      | None \<Rightarrow> find_from re xs (Suc pos))"

text \<open>
  \<^verbatim>\<open>FindStringSubmatch\<close>: \<^verbatim>\<open>nil\<close> without a match, otherwise the
  text of the match and of the eleven groups, twelve strings.
\<close>

definition substr :: "string \<Rightarrow> nat \<Rightarrow> nat \<Rightarrow> string" where
  "substr l from to = take (to - from) (drop from l)"

definition FindStringSubmatch :: "string \<Rightarrow> string list option" where
  "FindStringSubmatch l =
     (case find_from defaultRegex l 0 of
        None \<Rightarrow> None
      | Some cap \<Rightarrow> Some (map (\<lambda>i. substr l (cap ! (2 * i)) (cap ! (2 * i + 1))) [0..<12]))"

text \<open>The test lines of \<^verbatim>\<open>parser_test.go\<close>.\<close>

definition validCombinedLog :: string where
  "validCombinedLog = ''127.0.0.1 user-identifier frank [10/Oct/2000:13:55:36 -0700] \"GET /apache_pb.gif?param1=test HTTP/1.0\" 200 2326 \"referrer\" \"agent\"''"

definition validCommonLog :: string where
  "validCommonLog = ''127.0.0.1 user-identifier frank [10/Oct/2000:13:55:36 -0700] \"GET /apache_pb.gif?param1=test HTTP/1.0\" 200 2326''"

subsection \<open>Go's strings.Split and strconv.ParseUint\<close>

text \<open>
  \<^verbatim>\<open>strings.Split(s, sep)\<close> for a separator of one character: the pieces of
  \<^verbatim>\<open>s\<close> between the separators, at least one piece.
\<close>

fun split_on :: "char \<Rightarrow> string \<Rightarrow> string \<Rightarrow> string list" where
  "split_on sep piece [] = [piece]"
| "split_on sep piece (c # cs) =
     (if c = sep then piece # split_on sep [] cs else split_on sep (piece @ [c]) cs)"

definition strings_Split :: "string \<Rightarrow> char \<Rightarrow> string list" where
  "strings_Split s sep = split_on sep [] s"

definition byte :: "char \<Rightarrow> nat" where
  "byte c = of_char c"

definition is_digit :: "char \<Rightarrow> bool" where
  "is_digit c = (byte (CHR ''0'') \<le> byte c \<and> byte c \<le> byte (CHR ''9''))"

definition digit_val :: "char \<Rightarrow> nat" where
  "digit_val c = byte c - byte (CHR ''0'')"

definition is_letter :: "char \<Rightarrow> bool" where
  "is_letter c = ((byte (CHR ''a'') \<le> byte c \<and> byte c \<le> byte (CHR ''z''))
                  \<or> (byte (CHR ''A'') \<le> byte c \<and> byte c \<le> byte (CHR ''Z'')))"

text \<open>
  \<^verbatim>\<open>strconv.ParseUint(s, 10, bitSize)\<close>. The loop reads the characters from the
  left with the value so far in a \<^verbatim>\<open>uint64\<close>: a character that is no decimal
  digit is a syntax error (a letter is a digit of a larger base, and so is one too);
  \<^verbatim>\<open>n >= cutoff\<close> (the product would overflow) or a sum that wraps around or
  exceeds \<^verbatim>\<open>maxVal\<close> is a range error. The first error met is returned.
\<close>

definition cutoff :: int where
  "cutoff = (2 ^ 64 - 1) div 10 + 1"

fun ParseUint_loop :: "string \<Rightarrow> int \<Rightarrow> int \<Rightarrow> string \<Rightarrow> go_error + int" where
  "ParseUint_loop s0 maxVal n [] = Inr n"
| "ParseUint_loop s0 maxVal n (c # cs) =
     (if \<not> is_digit c then Inl (ErrSyntax s0)
      else if n \<ge> cutoff then Inl (ErrRange s0)
      else
        (let n10 = (n * 10) mod 2 ^ 64;
             n1 = (n10 + int (digit_val c)) mod 2 ^ 64
         in if n1 < n10 \<or> n1 > maxVal then Inl (ErrRange s0)
            else ParseUint_loop s0 maxVal n1 cs))"

definition ParseUint :: "string \<Rightarrow> nat \<Rightarrow> go_error + int" where
  "ParseUint s bitSize =
     (if s = [] then Inl (ErrSyntax s)
      else ParseUint_loop s (2 ^ bitSize - 1) 0 s)"

subsection \<open>Go's time.Parse and Time.Format for the two layouts of the parser\<close>

text \<open>
  \<^verbatim>\<open>time.Parse("02/Jan/2006:15:04:05 -0700", value)\<close> reads, in this order: a
  day of two digits, a slash, a month name of three letters in any case, a slash, a
  year of four digits, a colon, an hour of one or two digits, a colon, a minute of
  two digits, a colon, a second of two digits (a fraction of a second after it,
  which the layout does not have, is read and has no effect on the seconds), spaces,
  and a zone offset of a sign and four digits. Then nothing may be left, and the day
  must be one of the month. Every failure is the one error of this model.
\<close>

text \<open>\<^verbatim>\<open>getnum(s, fixed)\<close>: one or two digits, two when \<^verbatim>\<open>fixed\<close>.\<close>

fun getnum :: "string \<Rightarrow> bool \<Rightarrow> (nat \<times> string) option" where
  "getnum [] fixed = None"
| "getnum [c] fixed =
     (if \<not> is_digit c then None
      else if fixed then None else Some (digit_val c, []))"
| "getnum (c # d # r) fixed =
     (if \<not> is_digit c then None
      else if \<not> is_digit d then (if fixed then None else Some (digit_val c, d # r))
      else Some (digit_val c * 10 + digit_val d, r))"

text \<open>
  \<^verbatim>\<open>skip(value, prefix)\<close> for the prefixes of the layout: one literal
  character, and the space, for which any number of spaces (or the end of the value)
  is accepted.
\<close>

definition skip_char :: "char \<Rightarrow> string \<Rightarrow> string option" where
  "skip_char p v = (case v of [] \<Rightarrow> None | c # r \<Rightarrow> if c = p then Some r else None)"

definition skip_space :: "string \<Rightarrow> string option" where
  "skip_space v =
     (case v of
        [] \<Rightarrow> Some []
      | c # r \<Rightarrow> if c \<noteq> CHR '' '' then None else Some (dropWhile (\<lambda>x. x = CHR '' '') v))"

text \<open>
  \<^verbatim>\<open>lookup(shortMonthNames, value)\<close>: the first name that the value starts
  with, letters compared without case (\<^verbatim>\<open>match\<close>).
\<close>

definition to_lower :: "char \<Rightarrow> char" where
  "to_lower c = (if byte (CHR ''A'') \<le> byte c \<and> byte c \<le> byte (CHR ''Z'')
                  then char_of (byte c + 32) else c)"

definition match_ci :: "string \<Rightarrow> string \<Rightarrow> bool" where
  "match_ci s1 s2 =
     (length s1 = length s2 \<and>
      list_all2 (\<lambda>c1 c2. c1 = c2 \<or> (to_lower c1 = to_lower c2 \<and> is_letter c1)) s1 s2)"

definition shortMonthNames :: "string list" where
  "shortMonthNames = [''Jan'', ''Feb'', ''Mar'', ''Apr'', ''May'', ''Jun'',
                      ''Jul'', ''Aug'', ''Sep'', ''Oct'', ''Nov'', ''Dec'']"

fun lookup :: "string list \<Rightarrow> nat \<Rightarrow> string \<Rightarrow> (nat \<times> string) option" where
  "lookup [] i val = None"
| "lookup (v # tab) i val =
     (if length val \<ge> length v \<and> match_ci (take (length v) val) v
      then Some (i, drop (length v) val)
      else lookup tab (Suc i) val)"

definition isLeap :: "int \<Rightarrow> bool" where
  "isLeap year = (year mod 4 = 0 \<and> (year mod 100 \<noteq> 0 \<or> year mod 400 = 0))"

definition daysIn :: "nat \<Rightarrow> int \<Rightarrow> nat" where
  "daysIn m year =
     (if m = 2 then (if isLeap year then 29 else 28)
      else if m = 4 \<or> m = 6 \<or> m = 9 \<or> m = 11 then 30 else 31)"

text \<open>
  The days from 1 January 1970 to a date of the proleptic Gregorian calendar, which
  is the calendar of \<^verbatim>\<open>time.Date\<close>, and back. Months are 1 to 12;
  \<^verbatim>\<open>div\<close> rounds down.
\<close>

definition days_from_civil :: "int \<Rightarrow> int \<Rightarrow> int \<Rightarrow> int" where
  "days_from_civil y m d =
     (let y' = (if m \<le> 2 then y - 1 else y);
          era = y' div 400;
          yoe = y' - era * 400;
          doy = (153 * (if m > 2 then m - 3 else m + 9) + 2) div 5 + d - 1;
          doe = yoe * 365 + yoe div 4 - yoe div 100 + doy
      in era * 146097 + doe - 719468)"

definition civil_from_days :: "int \<Rightarrow> int \<times> int \<times> int" where
  "civil_from_days z0 =
     (let z = z0 + 719468;
          era = z div 146097;
          doe = z - era * 146097;
          yoe = (doe - doe div 1460 + doe div 36524 - doe div 146096) div 365;
          doy = doe - (365 * yoe + yoe div 4 - yoe div 100);
          mp = (5 * doy + 2) div 153;
          d = doy - (153 * mp + 2) div 5 + 1;
          m = (if mp < 10 then mp + 3 else mp - 9);
          y = yoe + era * 400
      in (if m \<le> 2 then y + 1 else y, m, d))"

text \<open>A fraction of a second: a period or a comma and a digit, then all digits after.\<close>

definition skip_fraction :: "string \<Rightarrow> string" where
  "skip_fraction v =
     (case v of
        c # d # r \<Rightarrow>
          if (c = CHR ''.'' \<or> c = CHR '','') \<and> is_digit d
          then dropWhile is_digit r else v
      | _ \<Rightarrow> v)"

text \<open>
  The zone offset \<^verbatim>\<open>-0700\<close>, in seconds east of UTC: five characters, hours
  up to 24 and minutes up to 60 (\<^verbatim>\<open>time.Parse\<close> admits both bounds).
\<close>

definition parse_numtz :: "string \<Rightarrow> (int \<times> string) option" where
  "parse_numtz v =
     (if length v < 5 then None
      else
        (case getnum (take 2 (drop 1 v)) True of
           None \<Rightarrow> None
         | Some (hr, _) \<Rightarrow>
             (case getnum (take 2 (drop 3 v)) True of
                None \<Rightarrow> None
              | Some (mm, _) \<Rightarrow>
                  if hr > 24 \<or> mm > 60 then None
                  else if hd v = CHR ''+'' then Some (int ((hr * 60 + mm) * 60), drop 5 v)
                  else if hd v = CHR ''-'' then Some (- int ((hr * 60 + mm) * 60), drop 5 v)
                  else None)))"

text \<open>
  The result of \<^verbatim>\<open>time.Parse\<close>: the instant, in seconds since 1 January 1970
  UTC (the date and clock read, taken as UTC, less the zone offset).
\<close>

definition bind_opt :: "'a option \<Rightarrow> ('a \<Rightarrow> 'b option) \<Rightarrow> 'b option" where
  "bind_opt x f = (case x of None \<Rightarrow> None | Some a \<Rightarrow> f a)"

definition time_Parse :: "string \<Rightarrow> go_error + int" where
  "time_Parse v0 =
     (case
        bind_opt (getnum v0 True) (\<lambda>(day, v1).
        bind_opt (skip_char (CHR ''/'') v1) (\<lambda>v2.
        bind_opt (lookup shortMonthNames 1 v2) (\<lambda>(month, v3).
        bind_opt (skip_char (CHR ''/'') v3) (\<lambda>v4.
        bind_opt (if length v4 \<ge> 4 \<and> list_all is_digit (take 4 v4)
                  then Some (foldl (\<lambda>n c. n * 10 + digit_val c) 0 (take 4 v4), drop 4 v4)
                  else None) (\<lambda>(year, v5).
        bind_opt (skip_char (CHR '':'') v5) (\<lambda>v6.
        bind_opt (getnum v6 False) (\<lambda>(hour, v7).
        if 24 \<le> hour then None else
        bind_opt (skip_char (CHR '':'') v7) (\<lambda>v8.
        bind_opt (getnum v8 True) (\<lambda>(minute, v9).
        if 60 \<le> minute then None else
        bind_opt (skip_char (CHR '':'') v9) (\<lambda>v10.
        bind_opt (getnum v10 True) (\<lambda>(sec, v11).
        if 60 \<le> sec then None else
        bind_opt (skip_space (skip_fraction v11)) (\<lambda>v12.
        bind_opt (parse_numtz v12) (\<lambda>(zoneOffset, v13).
        if v13 \<noteq> [] then None
        else if day < 1 \<or> day > daysIn month (int year) then None
        else Some (days_from_civil (int year) (int month) (int day) * 86400
                     + int hour * 3600 + int minute * 60 + int sec - zoneOffset))))))))))))))
      of None \<Rightarrow> Inl (ErrTimeParse v0)
       | Some t \<Rightarrow> Inr t)"

text \<open>
  \<^verbatim>\<open>appendInt(b, x, width)\<close>: the decimal digits of \<^verbatim>\<open>x\<close>, with
  zeros in front up to the width, after a minus sign when \<^verbatim>\<open>x\<close> is negative.
\<close>

function digits_of :: "nat \<Rightarrow> string" where
  "digits_of n =
     (if n < 10 then [char_of (n + 48)]
      else digits_of (n div 10) @ [char_of (n mod 10 + 48)])"
  by pat_completeness auto
termination
  by (relation "measure (\<lambda>n. n)") auto

declare digits_of.simps [simp del]

definition appendInt :: "int \<Rightarrow> nat \<Rightarrow> string" where
  "appendInt x width =
     (let ds = digits_of (nat \<bar>x\<bar>);
          padded = replicate (width - length ds) (CHR ''0'') @ ds
      in if x < 0 then CHR ''-'' # padded else padded)"

text \<open>
  \<^verbatim>\<open>t.UTC().Format("2006-01-02T15:04:05Z07:00")\<close>: the date and the clock of the
  instant in UTC, whose zone is written \<^verbatim>\<open>Z\<close>.
\<close>

definition format_UTC :: "int \<Rightarrow> string" where
  "format_UTC t =
     (let days = t div 86400;
          secs = t mod 86400;
          (y, m, d) = civil_from_days days
      in appendInt y 4 @ ''-'' @ appendInt m 2 @ ''-'' @ appendInt d 2 @ ''T''
         @ appendInt (secs div 3600) 2 @ '':'' @ appendInt (secs mod 3600 div 60) 2
         @ '':'' @ appendInt (secs mod 60) 2 @ ''Z'')"

subsection \<open>The record parser: parseLog and ParseBatch\<close>

text \<open>
  \<^verbatim>\<open>parseLog\<close>, lines 71 to 139, in the order of its blocks. Lines 79 to 90:
  the record with the default values and the groups that are stored as they are.
  The fields that are not set keep Go's zero values, the empty string and 0.
\<close>

definition new_log :: "string list \<Rightarrow> Log" where
  "new_log matches =
     \<lparr>IP = matches ! 1, Identity = matches ! 2, User = matches ! 3, Time = matches ! 4,
      TimestampUTC = [], Method = matches ! 5, Route = [], Params = ''-'',
      ResponseCode = 0, BytesSent = 0, Referer = ''-'', Agent = ''-''\<rparr>"

text \<open>Lines 92 to 99: the route and the parameters.\<close>

definition parse_route :: "string list \<Rightarrow> Log \<Rightarrow> Log" where
  "parse_route matches parsedLog =
     (let uri = strings_Split (matches ! 6) (CHR ''?'');
          parsedLog1 = parsedLog\<lparr>Route := uri ! 0\<rparr>
      in if length uri > 1 then parsedLog1\<lparr>Params := uri ! 1\<rparr> else parsedLog1)"

text \<open>Lines 101 to 107: the response code, converted by \<^verbatim>\<open>uint16\<close>.\<close>

definition parse_response_code :: "string list \<Rightarrow> sink \<times> Log \<Rightarrow> sink \<times> Log" where
  "parse_response_code matches st =
     (case ParseUint (matches ! 8) 16 of
        Inl err \<Rightarrow> (fst st @ [Println ''error parsing response code: '' [AErr err]], snd st)
      | Inr responseCode \<Rightarrow> (fst st, (snd st)\<lparr>ResponseCode := word_of_int responseCode\<rparr>))"

text \<open>Lines 109 to 115: the timestamp in UTC.\<close>

definition parse_timestamp :: "string list \<Rightarrow> sink \<times> Log \<Rightarrow> sink \<times> Log" where
  "parse_timestamp matches st =
     (case time_Parse (matches ! 4) of
        Inl err \<Rightarrow> (fst st @ [Println ''error parsing time:'' [AErr err]], snd st)
      | Inr parsedTime \<Rightarrow> (fst st, (snd st)\<lparr>TimestampUTC := format_UTC parsedTime\<rparr>))"

text \<open>
  Lines 117 to 126: the bytes sent, parsed at 64 bits and converted by
  \<^verbatim>\<open>uint32\<close>. A failure is logged unless the text is \<^verbatim>\<open>-\<close>.
\<close>

definition parse_bytes_sent :: "string list \<Rightarrow> sink \<times> Log \<Rightarrow> sink \<times> Log" where
  "parse_bytes_sent matches st =
     (case ParseUint (matches ! 9) 64 of
        Inl err \<Rightarrow>
          (if matches ! 9 \<noteq> ''-''
           then fst st @ [Debugf ''error parsing bytes sent: %v. proceeding with default value''
                            [AErr err]]
           else fst st, snd st)
      | Inr bytesSent \<Rightarrow> (fst st, (snd st)\<lparr>BytesSent := word_of_int bytesSent\<rparr>))"

text \<open>Lines 128 to 136: the referer and the agent, when the groups are not empty.\<close>

definition parse_referer_agent :: "string list \<Rightarrow> Log \<Rightarrow> Log" where
  "parse_referer_agent matches parsedLog =
     (let parsedLog1 = (if length matches > 9 \<and> matches ! 10 \<noteq> []
                        then parsedLog\<lparr>Referer := matches ! 10\<rparr> else parsedLog)
      in if length matches > 10 \<and> matches ! 11 \<noteq> []
         then parsedLog1\<lparr>Agent := matches ! 11\<rparr> else parsedLog1)"

text \<open>
  The result of \<^verbatim>\<open>parseLog\<close> is the calls made to the logger and either the
  error (\<^verbatim>\<open>nil, errors.New("invalid log format: " + l)\<close>) or the record.
\<close>

definition parseLog :: "string \<Rightarrow> sink \<times> (go_error + Log)" where
  "parseLog l =
     (case FindStringSubmatch l of
        None \<Rightarrow> ([], Inl (ErrInvalidLogFormat l))
      | Some matches \<Rightarrow>
          (let st = parse_bytes_sent matches
                      (parse_timestamp matches
                        (parse_response_code matches
                          ([], parse_route matches (new_log matches))))
           in (fst st, Inr (parse_referer_agent matches (snd st)))))"

text \<open>
  Lines 149 to 156: the loop of \<^verbatim>\<open>ParseBatch\<close> over the lines of a batch.
  A line that \<^verbatim>\<open>parseLog\<close> rejects is logged and skipped; the record of any
  other is appended to \<^verbatim>\<open>parsedLogs\<close>.
\<close>

fun parse_lines :: "string list \<Rightarrow> sink \<times> Log list \<Rightarrow> sink \<times> Log list" where
  "parse_lines [] (lg, parsedLogs) = (lg, parsedLogs)"
| "parse_lines (logEntry # rest) (lg, parsedLogs) =
     (case parseLog logEntry of
        (lg1, Inl err) \<Rightarrow>
          parse_lines rest (lg @ lg1 @ [Println ''error parsing log: '' [AErr err]], parsedLogs)
      | (lg1, Inr parsedLog) \<Rightarrow>
          parse_lines rest (lg @ lg1, parsedLogs @ [parsedLog]))"

text \<open>
  Lines 145 to 160: what a worker does with one batch taken from the channel. The
  second component is the batch it sends on \<^verbatim>\<open>parsedLogChan\<close>.
\<close>

definition parse_batch :: "int \<Rightarrow> string list \<Rightarrow> sink \<times> Log list" where
  "parse_batch wid batch =
     (let lg0 = [Debugf ''routine %d beginning to parse a batch of %d logs''
                   [AInt wid, AInt (int (length batch))]];
          (lg1, parsedLogs) = parse_lines batch (lg0, [])
      in (lg1 @ [Debugf ''routine %d successfully parsed a batch'' [AInt wid]], parsedLogs))"

text \<open>
  Lines 142 to 162: \<^verbatim>\<open>ParseBatch\<close>, for the batches a worker takes from the
  channel until it is closed: its calls to the logger and the batches it sends.
\<close>

fun ParseBatch :: "int \<Rightarrow> string list list \<Rightarrow> sink \<times> Log list list" where
  "ParseBatch wid [] = ([], [])"
| "ParseBatch wid (batch # later) =
     (let (lg, parsedLogs) = parse_batch wid batch;
          (lg', sent) = ParseBatch wid later
      in (lg @ lg', parsedLogs # sent))"

text \<open>
  The number that a string of decimal digits denotes, read from the left with the
  most significant digit first.
\<close>

definition decimal_value :: "string \<Rightarrow> int" where
  "decimal_value ds = foldl (\<lambda>n c. n * 10 + int (digit_val c)) 0 ds"

text \<open>
  The two diagnostics that \<^verbatim>\<open>parseLog\<close> emits before it reads the bytes
  sent: the one of the response code and the one of the timestamp.
\<close>

definition early_diag :: "log_call \<Rightarrow> bool" where
  "early_diag c \<longleftrightarrow> (\<exists>e. c = Println ''error parsing response code: '' [AErr e])
                    \<or> (\<exists>e. c = Println ''error parsing time:'' [AErr e])"

text \<open>
  Lines for examples: the bytes sent are \<^verbatim>\<open>-\<close>, are \<^verbatim>\<open>abc\<close> (the
  line of \<^verbatim>\<open>TestParser_ParseLogInvalidBytesSent\<close>), and are a number above
  the unsigned 32-bit range.
\<close>

definition dashBytesLog :: string where
  "dashBytesLog = ''127.0.0.1 user-identifier frank [10/Oct/2000:13:55:36 -0700] \"GET /apache_pb.gif HTTP/1.0\" 200 -''"

definition invalidBytesLog :: string where
  "invalidBytesLog = ''127.0.0.1 user-identifier frank [10/Oct/2000:13:55:36 -0700] \"GET /apache_pb.gif?param1=test HTTP/1.0\" 200 abc \"referrer\" \"agent\"''"

definition largeBytesLog :: string where
  "largeBytesLog = ''127.0.0.1 user-identifier frank [10/Oct/2000:13:55:36 -0700] \"GET /apache_pb.gif HTTP/1.0\" 200 4294967301''"

subsection \<open>The orchestration: main, with its goroutines\<close>

text \<open>
  \<^verbatim>\<open>main\<close> starts the parse routines and the insert routine, runs
  \<^verbatim>\<open>ReadAndBatch\<close> itself, and then either returns at once (a read error)
  or closes the batch channel, waits for the parse routines, closes the channel of
  parsed batches, waits for the insert routine and creates the indexes. Both channels
  are unbuffered: a send is one step with its receive. The goroutines run in any
  order; a schedule is the list of the steps taken, each by one goroutine. When
  \<^verbatim>\<open>main\<close> has returned, or has panicked, the process is over and no
  goroutine takes a step.
\<close>

datatype main_pc =
    Reading        \<comment> \<open>in \<^verbatim>\<open>reader.ReadAndBatch(batchChannel)\<close>, line 90\<close>
  | WaitWorkers    \<comment> \<open>in \<^verbatim>\<open>batchWg.Wait()\<close>, line 96\<close>
  | WaitWriter     \<comment> \<open>in \<^verbatim>\<open>insertWg.Wait()\<close>, line 99\<close>
  | Returned       \<comment> \<open>\<^verbatim>\<open>main\<close> has returned\<close>
  | Crashed        \<comment> \<open>the process has died of a panic in \<^verbatim>\<open>ReadAndBatch\<close>\<close>

datatype worker =
    Idle                  \<comment> \<open>waiting to receive from \<^verbatim>\<open>batchChan\<close>\<close>
  | Holding "string list" \<comment> \<open>has received a batch and not yet parsed it\<close>
  | Sending "Log list"    \<comment> \<open>waiting to send on \<^verbatim>\<open>parsedLogChan\<close>\<close>
  | Exited                \<comment> \<open>left the loop: \<^verbatim>\<open>wg.Done()\<close>\<close>

datatype inserter =
    Waiting               \<comment> \<open>waiting to receive from \<^verbatim>\<open>parsedLogChan\<close>\<close>
  | Inserting "Log list"  \<comment> \<open>has received a parsed batch and not yet inserted it\<close>
  | Finished              \<comment> \<open>left the loop: \<^verbatim>\<open>wg.Done()\<close>\<close>

record pipeline =
  main_at :: main_pc
  reader_left :: "reader_event list"
  batchChannel_closed :: bool
  workers :: "worker list"
  parsedLogChannel_closed :: bool
  insert_routine :: inserter
  db :: writer
  main_log :: sink

datatype action =
    Hand nat          \<comment> \<open>the reader's next send, received by the worker of this number\<close>
  | Parse nat         \<comment> \<open>this worker parses the batch it holds\<close>
  | Deliver nat       \<comment> \<open>this worker's send, received by the insert routine\<close>
  | Insert            \<comment> \<open>the insert routine runs its transaction\<close>
  | ReaderReturns     \<comment> \<open>\<^verbatim>\<open>ReadAndBatch\<close> returns to \<^verbatim>\<open>main\<close>, lines 90 to 95\<close>
  | ReaderPanics      \<comment> \<open>\<^verbatim>\<open>ReadAndBatch\<close> panics in the goroutine of \<^verbatim>\<open>main\<close>\<close>
  | WorkerExits nat   \<comment> \<open>this worker finds the batch channel closed\<close>
  | WorkersDone       \<comment> \<open>\<^verbatim>\<open>batchWg.Wait()\<close> returns, lines 96 to 98\<close>
  | InserterExits     \<comment> \<open>the insert routine finds its channel closed\<close>
  | InserterDone      \<comment> \<open>\<^verbatim>\<open>insertWg.Wait()\<close> returns, lines 99 to 110\<close>

text \<open>The process is running: \<^verbatim>\<open>main\<close> has neither returned nor panicked.\<close>

definition running :: "pipeline \<Rightarrow> bool" where
  "running s \<longleftrightarrow> main_at s \<noteq> Returned \<and> main_at s \<noteq> Crashed"

definition init :: "nat \<Rightarrow> int \<Rightarrow> input_file \<Rightarrow> pipeline" where
  "init routineCount batchSize f =
     \<lparr>main_at = Reading, reader_left = ReadAndBatch batchSize f,
      batchChannel_closed = False, workers = replicate routineCount Idle,
      parsedLogChannel_closed = False, insert_routine = Waiting,
      db = writer_init, main_log = []\<rparr>"

text \<open>
  One step of one goroutine; \<^verbatim>\<open>None\<close> when the goroutine cannot take it in
  this state. The store answers every batch as \<^verbatim>\<open>env\<close> says.
\<close>

fun step :: "tx_env \<Rightarrow> action \<Rightarrow> pipeline \<Rightarrow> pipeline option" where
  "step env (Hand i) s =
     (case reader_left s of
        Send batch # left \<Rightarrow>
          if main_at s = Reading \<and> i < length (workers s) \<and> workers s ! i = Idle
          then Some (s\<lparr>reader_left := left, workers := (workers s)[i := Holding batch]\<rparr>)
          else None
      | _ \<Rightarrow> None)"
| "step env (Parse i) s =
     (if running s \<and> i < length (workers s)
      then (case workers s ! i of
              Holding batch \<Rightarrow>
                Some (s\<lparr>workers := (workers s)[i := Sending (snd (parse_batch (int i) batch))]\<rparr>)
            | _ \<Rightarrow> None)
      else None)"
| "step env (Deliver i) s =
     (if running s \<and> i < length (workers s) \<and> insert_routine s = Waiting
      then (case workers s ! i of
              Sending parsedLogs \<Rightarrow>
                Some (s\<lparr>workers := (workers s)[i := Idle], insert_routine := Inserting parsedLogs\<rparr>)
            | _ \<Rightarrow> None)
      else None)"
| "step env Insert s =
     (if running s
      then (case insert_routine s of
              Inserting parsedLogBatch \<Rightarrow>
                Some (s\<lparr>insert_routine := Waiting, db := insert_one env parsedLogBatch (db s)\<rparr>)
            | _ \<Rightarrow> None)
      else None)"
| "step env ReaderReturns s =
     (if main_at s = Reading
      then (case reader_left s of
              [Return (Some err)] \<Rightarrow>
                Some (s\<lparr>main_at := Returned, reader_left := [],
                        main_log := main_log s @
                          [Printf ''error while reading from log file and batching: %v'' [AReadErr err]]\<rparr>)
            | [Return None] \<Rightarrow>
                Some (s\<lparr>main_at := WaitWorkers, reader_left := [], batchChannel_closed := True\<rparr>)
            | _ \<Rightarrow> None)
      else None)"
| "step env ReaderPanics s =
     (if main_at s = Reading \<and> reader_left s = [PanicMakeslice]
      then Some (s\<lparr>main_at := Crashed, reader_left := []\<rparr>)
      else None)"
| "step env (WorkerExits i) s =
     (if running s \<and> i < length (workers s) \<and> workers s ! i = Idle
         \<and> batchChannel_closed s
      then Some (s\<lparr>workers := (workers s)[i := Exited]\<rparr>)
      else None)"
| "step env WorkersDone s =
     (if main_at s = WaitWorkers \<and> list_all (\<lambda>w. w = Exited) (workers s)
      then Some (s\<lparr>main_at := WaitWriter, parsedLogChannel_closed := True\<rparr>)
      else None)"
| "step env InserterExits s =
     (if running s \<and> insert_routine s = Waiting \<and> parsedLogChannel_closed s
      then Some (s\<lparr>insert_routine := Finished\<rparr>)
      else None)"
| "step env InserterDone s =
     (if main_at s = WaitWriter \<and> insert_routine s = Finished
      then Some (s\<lparr>main_at := Returned,
                    main_log := main_log s @ [Println ''log parsing finished'' []]\<rparr>)
      else None)"

fun run_schedule :: "tx_env \<Rightarrow> action list \<Rightarrow> pipeline \<Rightarrow> pipeline option" where
  "run_schedule env [] s = Some s"
| "run_schedule env (a # as) s =
     (case step env a s of None \<Rightarrow> None | Some s' \<Rightarrow> run_schedule env as s')"

text \<open>
  A pipeline is drained when no batch is left with a parse routine or with the insert
  routine: every routine has left its loop.
\<close>

definition drained :: "pipeline \<Rightarrow> bool" where
  "drained s \<longleftrightarrow> list_all (\<lambda>w. w = Exited) (workers s) \<and> insert_routine s = Finished"

text \<open>
  An input whose scan fails after its first line, as a line longer than the scanner's
  buffer after it makes it.
\<close>

definition failing_file :: input_file where
  "failing_file = \<lparr>open_res = OpenOk, scan_lines = [validCombinedLog], scan_failed = True\<rparr>"

subsection \<open>Go's float64: the operations of getRoutineCount\<close>

text \<open>
  \<^verbatim>\<open>getRoutineCount\<close> computes in \<^verbatim>\<open>float64\<close>, the binary64 format of
  IEEE 754 with rounding to nearest, ties to even. A value is a finite number
  \<open>\<plusminus> m \<sqdot> 2\<^sup>e\<close>, an infinity or NaN. The finite numbers are kept in the one
  form the format has for each: \<open>0 \<le> m < 2\<^sup>5\<^sup>3\<close> and \<open>-1074 \<le> e \<le> 971\<close>, with
  \<open>m \<ge> 2\<^sup>5\<^sup>2\<close> unless \<open>e = -1074\<close> (the subnormal numbers and the two zeros). The
  Boolean is the sign bit, true for negative.
\<close>

datatype f64 = Finite bool int int | Infinity bool | NaN

definition round_half_even :: "int \<Rightarrow> int \<Rightarrow> int" where
  "round_half_even n d =
     (let q = n div d; r = n mod d
      in if 2 * r < d then q
         else if 2 * r > d then q + 1
         else if even q then q else q + 1)"

text \<open>
  The exponent of a fraction \<open>n / d\<close> (\<open>n > 0\<close>, \<open>d > 0\<close>): the integer part of its
  binary logarithm, which is the difference of the bit lengths or one less.
\<close>

definition exponent_of :: "int \<Rightarrow> int \<Rightarrow> int" where
  "exponent_of n d =
     (let e0 = bitlen n - bitlen d
      in if (if 0 \<le> e0 then d * 2 ^ nat e0 \<le> n else d \<le> n * 2 ^ nat (- e0))
         then e0 else e0 - 1)"

text \<open>
  The \<^verbatim>\<open>float64\<close> nearest to the fraction \<open>n / d\<close> (\<open>n \<ge> 0\<close>, \<open>d > 0\<close>) with
  the given sign: \<^verbatim>\<open>qe\<close> is the exponent of the last place kept, 52 places
  below the exponent of the fraction and never below \<open>-1074\<close>. A result of
  \<open>2\<^sup>1\<^sup>0\<^sup>2\<^sup>4\<close> or more is an infinity.
\<close>

definition round_f64 :: "bool \<Rightarrow> int \<Rightarrow> int \<Rightarrow> f64" where
  "round_f64 neg n d =
     (if n = 0 then Finite neg 0 (- 1074)
      else
        (let qe = max (exponent_of n d) (- 1022) - 52;
             m = (if 0 \<le> qe then round_half_even n (d * 2 ^ nat qe)
                  else round_half_even (n * 2 ^ nat (- qe)) d);
             m' = (if m = 2 ^ 53 then 2 ^ 52 else m);
             e' = (if m = 2 ^ 53 then qe + 1 else qe)
         in if e' > 971 then Infinity neg else Finite neg m' e'))"

text \<open>A finite number as a fraction of two integers.\<close>

definition numer :: "int \<Rightarrow> int \<Rightarrow> int" where
  "numer m e = (if 0 \<le> e then m * 2 ^ nat e else m)"

definition denom :: "int \<Rightarrow> int" where
  "denom e = (if 0 \<le> e then 1 else 2 ^ nat (- e))"

text \<open>The conversion \<^verbatim>\<open>float64(n)\<close> of an integer.\<close>

definition f64_of_int :: "int \<Rightarrow> f64" where
  "f64_of_int n = round_f64 (n < 0) \<bar>n\<bar> 1"

text \<open>The product \<^verbatim>\<open>x * y\<close>.\<close>

fun fmul :: "f64 \<Rightarrow> f64 \<Rightarrow> f64" where
  "fmul NaN y = NaN"
| "fmul x NaN = NaN"
| "fmul (Infinity s) (Infinity t) = Infinity (s \<noteq> t)"
| "fmul (Infinity s) (Finite t m e) = (if m = 0 then NaN else Infinity (s \<noteq> t))"
| "fmul (Finite s m e) (Infinity t) = (if m = 0 then NaN else Infinity (s \<noteq> t))"
| "fmul (Finite s m1 e1) (Finite t m2 e2) =
     round_f64 (s \<noteq> t) (numer (m1 * m2) (e1 + e2)) (denom (e1 + e2))"

text \<open>The quotient \<^verbatim>\<open>x / y\<close>; a division by zero gives an infinity or NaN.\<close>

fun fdiv :: "f64 \<Rightarrow> f64 \<Rightarrow> f64" where
  "fdiv NaN y = NaN"
| "fdiv x NaN = NaN"
| "fdiv (Infinity s) (Infinity t) = NaN"
| "fdiv (Infinity s) (Finite t m e) = Infinity (s \<noteq> t)"
| "fdiv (Finite s m e) (Infinity t) = Finite (s \<noteq> t) 0 (- 1074)"
| "fdiv (Finite s m1 e1) (Finite t m2 e2) =
     (if m2 = 0 then (if m1 = 0 then NaN else Infinity (s \<noteq> t))
      else round_f64 (s \<noteq> t) (numer m1 e1 * denom e2) (denom e1 * numer m2 e2))"

text \<open>
  The difference \<^verbatim>\<open>x - y\<close>. A difference that is exactly zero is \<open>+0\<close>, but
  \<open>-0\<close> when \<open>x\<close> is \<open>-0\<close> and \<open>y\<close> is \<open>+0\<close>.
\<close>

fun fsub :: "f64 \<Rightarrow> f64 \<Rightarrow> f64" where
  "fsub NaN y = NaN"
| "fsub x NaN = NaN"
| "fsub (Infinity s) (Infinity t) = (if s = t then NaN else Infinity s)"
| "fsub (Infinity s) (Finite t m e) = Infinity s"
| "fsub (Finite s m e) (Infinity t) = Infinity (\<not> t)"
| "fsub (Finite s m1 e1) (Finite t m2 e2) =
     (let a = (if s then - 1 else 1) * numer m1 e1 * denom e2;
          b = (if t then - 1 else 1) * numer m2 e2 * denom e1;
          d = denom e1 * denom e2
      in if a - b = 0 then Finite (s \<and> \<not> t) 0 (- 1074)
         else round_f64 (a - b < 0) \<bar>a - b\<bar> d)"

text \<open>\<^verbatim>\<open>math.Floor\<close>: the zeros, the infinities and NaN are returned as they are.\<close>

fun Floor :: "f64 \<Rightarrow> f64" where
  "Floor NaN = NaN"
| "Floor (Infinity s) = Infinity s"
| "Floor (Finite s m e) =
     (if 0 \<le> e then Finite s m e
      else
        (let k = m div 2 ^ nat (- e); r = m mod 2 ^ nat (- e)
         in if s \<and> r \<noteq> 0 then round_f64 s (k + 1) 1 else round_f64 s k 1))"

text \<open>\<^verbatim>\<open>x > y\<close> on values that are not NaN.\<close>

fun f64_key :: "f64 \<Rightarrow> int \<Rightarrow> int" where
  "f64_key (Finite s m e) lo = (if s then - 1 else 1) * m * 2 ^ nat (e - lo)"
| "f64_key x lo = 0"

fun f64_gt :: "f64 \<Rightarrow> f64 \<Rightarrow> bool" where
  "f64_gt NaN y = False"
| "f64_gt x NaN = False"
| "f64_gt (Infinity s) (Infinity t) = (\<not> s \<and> t)"
| "f64_gt (Infinity s) (Finite t m e) = (\<not> s)"
| "f64_gt (Finite s m e) (Infinity t) = t"
| "f64_gt (Finite s m1 e1) (Finite t m2 e2) =
     (f64_key (Finite s m1 e1) (min e1 e2) > f64_key (Finite t m2 e2) (min e1 e2))"

text \<open>
  \<^verbatim>\<open>math.Max\<close>, with its special cases in the order of the library:
  \<^verbatim>\<open>+Inf\<close> if either is \<^verbatim>\<open>+Inf\<close>, then NaN if either is NaN, then the
  zeros (\<open>+0\<close> unless both are \<open>-0\<close>).
\<close>

fun is_zero :: "f64 \<Rightarrow> bool" where
  "is_zero (Finite s m e) = (m = 0)"
| "is_zero x = False"

fun signbit :: "f64 \<Rightarrow> bool" where
  "signbit (Finite s m e) = s"
| "signbit (Infinity s) = s"
| "signbit NaN = False"

definition Max_f64 :: "f64 \<Rightarrow> f64 \<Rightarrow> f64" where
  "Max_f64 x y =
     (if x = Infinity False \<or> y = Infinity False then Infinity False
      else if x = NaN \<or> y = NaN then NaN
      else if is_zero x \<and> is_zero y then (if signbit x then y else x)
      else if f64_gt x y then x else y)"

text \<open>
  The conversion \<^verbatim>\<open>int(x)\<close> to the 64-bit \<^verbatim>\<open>int\<close>: the fraction is cut
  off. For NaN, the infinities and every number outside the range of \<^verbatim>\<open>int\<close>
  the Go specification leaves the result to the implementation; the two it is written
  out for are amd64, whose instruction answers \<open>-2\<^sup>6\<^sup>3\<close> in all these cases, and
  arm64, whose instruction answers 0 for NaN and the nearest end of the range otherwise.
\<close>

datatype platform = AMD64 | ARM64

fun out_of_range :: "platform \<Rightarrow> f64 \<Rightarrow> int" where
  "out_of_range AMD64 x = - (2 ^ 63)"
| "out_of_range ARM64 NaN = 0"
| "out_of_range ARM64 x = (if signbit x then - (2 ^ 63) else 2 ^ 63 - 1)"

fun trunc_f64 :: "f64 \<Rightarrow> int option" where
  "trunc_f64 (Finite s m e) =
     (let t = (if 0 \<le> e then m * 2 ^ nat e else m div 2 ^ nat (- e));
          v = (if s then - t else t)
      in if - (2 ^ 63) \<le> v \<and> v < 2 ^ 63 then Some v else None)"
| "trunc_f64 x = None"

definition int_of_f64 :: "platform \<Rightarrow> f64 \<Rightarrow> int" where
  "int_of_f64 p x = (case trunc_f64 x of Some v \<Rightarrow> v | None \<Rightarrow> out_of_range p x)"

subsection \<open>The configuration and the worker-pool size: getRoutineCount\<close>

text \<open>
  The fields of \<^verbatim>\<open>config.Config\<close> that the core reads. The two integers are
  64-bit \<^verbatim>\<open>int\<close>s, read as signed.
\<close>

record Config =
  BatchSize :: "64 word"
  MaxMemoryUsageMB :: "64 word"
  AverageLogSizeMB :: f64

definition reservedRoutines :: f64 where
  "reservedRoutines = f64_of_int 2"

text \<open>
  \<^verbatim>\<open>math.Max(1, math.Floor(float64(cfg.MaxMemoryUsageMB)/(cfg.AverageLogSizeMB*float64(cfg.BatchSize)))-reservedRoutines)\<close>:
  the quotient first, then the value that is converted.
\<close>

definition quotient :: "Config \<Rightarrow> f64" where
  "quotient cfg =
     fdiv (f64_of_int (sint (MaxMemoryUsageMB cfg)))
          (fmul (AverageLogSizeMB cfg) (f64_of_int (sint (BatchSize cfg))))"

definition routines_f64 :: "Config \<Rightarrow> f64" where
  "routines_f64 cfg = Max_f64 (f64_of_int 1) (fsub (Floor (quotient cfg)) reservedRoutines)"

definition getRoutineCount :: "platform \<Rightarrow> Config \<Rightarrow> int" where
  "getRoutineCount p cfg = int_of_f64 p (routines_f64 cfg)"

text \<open>\<^verbatim>\<open>Config.Validate\<close>: the three values must be greater than 0.\<close>

datatype config_error = BadMaxMemoryUsageMB | BadAverageLogSizeMB | BadBatchSize

definition Validate :: "Config \<Rightarrow> config_error option" where
  "Validate cfg =
     (if sint (MaxMemoryUsageMB cfg) \<le> 0 then Some BadMaxMemoryUsageMB
      else if AverageLogSizeMB cfg \<noteq> NaN \<and> \<not> f64_gt (AverageLogSizeMB cfg) (f64_of_int 0)
      then Some BadAverageLogSizeMB
      else if sint (BatchSize cfg) \<le> 0 then Some BadBatchSize
      else None)"

text \<open>
  The configuration of \<^verbatim>\<open>TestGetRoutineCount\<close>, which is also the default one;
  \<^verbatim>\<open>0.001\<close> is the \<^verbatim>\<open>float64\<close> nearest to one thousandth.
\<close>

definition test_config :: Config where
  "test_config = \<lparr>BatchSize = 5000, MaxMemoryUsageMB = 100,
                    AverageLogSizeMB = round_f64 False 1 1000\<rparr>"

text \<open>
  What the statements about \<^verbatim>\<open>getRoutineCount\<close> speak of: the values of the
  datatype that are numbers of the format, and the integer part (rounded down) of a
  finite number.
\<close>

fun valid_f64 :: "f64 \<Rightarrow> bool" where
  "valid_f64 (Finite s m e) =
     (0 \<le> m \<and> m < 2 ^ 53 \<and> - 1074 \<le> e \<and> e \<le> 971 \<and> (2 ^ 52 \<le> m \<or> e = - 1074))"
| "valid_f64 x = True"

fun floor_of :: "f64 \<Rightarrow> int" where
  "floor_of (Finite s m e) =
     (if 0 \<le> e then (if s then - m else m) * 2 ^ nat e
      else (if s then - m else m) div 2 ^ nat (- e))"
| "floor_of x = 0"

text \<open>
  Two more configurations: a budget of 1 MB, which is less than the 5 MB of one batch
  of the default size, and one that \<^verbatim>\<open>Validate\<close> rejects, with a budget and an
  average size of zero.
\<close>

definition small_budget_config :: Config where
  "small_budget_config = test_config\<lparr>MaxMemoryUsageMB := 1\<rparr>"

definition zero_config :: Config where
  "zero_config = \<lparr>BatchSize = 5000, MaxMemoryUsageMB = 0,
                    AverageLogSizeMB = Finite False 0 (- 1074)\<rparr>"

text \<open>
  Two configurations that \<^verbatim>\<open>Validate\<close> accepts and that the command line
  sets, with the default budget and batch size: an average size of NaN
  (\<^verbatim>\<open>-avgLogSize=NaN\<close>: the flag is read by \<^verbatim>\<open>strconv.ParseFloat\<close>, which
  takes the word), and one of \<open>2\<^sup>-\<^sup>7\<^sup>0\<close> MB, about \<open>8.47 \<sqdot> 10\<^sup>-\<^sup>2\<^sup>2\<close>.
\<close>

definition nan_config :: Config where
  "nan_config = \<lparr>BatchSize = 5000, MaxMemoryUsageMB = 100, AverageLogSizeMB = NaN\<rparr>"

definition tiny_config :: Config where
  "tiny_config = \<lparr>BatchSize = 5000, MaxMemoryUsageMB = 100,
                    AverageLogSizeMB = Finite False 4503599627370496 (- 122)\<rparr>"

text \<open>
  Three configurations with other batch sizes: the flags of \<^verbatim>\<open>TestLoad_Flags\<close>
  (\<^verbatim>\<open>-batchSize=1234 -maxMemUsage=250 -avgLogSize=750\<close>); a budget of 6 MB for
  batches of 3 records of 0.1 MB; and a budget of \<open>2\<^sup>5\<^sup>4 + 4\<close> MB for batches of
  one record of 1 MB.
\<close>

definition flags_config :: Config where
  "flags_config = \<lparr>BatchSize = 1234, MaxMemoryUsageMB = 250,
                     AverageLogSizeMB = f64_of_int 750\<rparr>"

definition tenth_config :: Config where
  "tenth_config = \<lparr>BatchSize = 3, MaxMemoryUsageMB = 6,
                     AverageLogSizeMB = round_f64 False 1 10\<rparr>"

definition large_budget_config :: Config where
  "large_budget_config = \<lparr>BatchSize = 1, MaxMemoryUsageMB = 18014398509481988,
                            AverageLogSizeMB = f64_of_int 1\<rparr>"

subsection \<open>The formula of the specification for the worker count\<close>

text \<open>
  The specification gives the size of the pool as a formula of its three inputs,
  \<^verbatim>\<open>workerCount(maxMemoryBudgetMB, avgRecordSizeMB, batchSize) =
  max(1, floor(maxMemoryBudgetMB / (avgRecordSizeMB * batchSize)) - reserved)\<close> with
  \<^verbatim>\<open>reserved = 2\<close>. The definition below is that formula, written from the
  words of the specification to be compared with \<^verbatim>\<open>getRoutineCount\<close>; it is
  not a translation of the source. The budget and the batch size are integers and
  the average size is a \<^verbatim>\<open>float64\<close>, so the product and the quotient are
  those of \<^verbatim>\<open>float64\<close>; the floor, the difference and the maximum are those
  of the integers. The formula has a value when the quotient is a number: NaN and
  the infinities have no integer part.
\<close>

definition reserved :: int where
  "reserved = 2"

definition workerCount_spec :: "int \<Rightarrow> f64 \<Rightarrow> int \<Rightarrow> int option" where
  "workerCount_spec maxMemoryBudgetMB avgRecordSizeMB batchSize =
     (case fdiv (f64_of_int maxMemoryBudgetMB) (fmul avgRecordSizeMB (f64_of_int batchSize)) of
        Finite s m e \<Rightarrow> Some (max 1 (floor_of (Finite s m e) - reserved))
      | _ \<Rightarrow> None)"

subsection \<open>Predicates of the proofs\<close>

text \<open>
  For the proofs: the values of the datatype with a mantissa that is not negative,
  and those with the sign bit set.
\<close>

fun nonneg :: "f64 \<Rightarrow> bool" where
  "nonneg (Finite s m e) = (0 \<le> m)"
| "nonneg x = True"

definition neg_form :: "f64 \<Rightarrow> bool" where
  "neg_form x \<longleftrightarrow> x = Infinity True \<or> (\<exists>m e. x = Finite True m e \<and> 0 \<le> m)"

text \<open>
  What holds in every state of a run in which \<^verbatim>\<open>ReadAndBatch\<close> ends without
  an error: while \<^verbatim>\<open>main\<close> is reading, the reader's last event is the return
  of \<^verbatim>\<open>nil\<close>; while it waits for the insert routine, every parse routine has
  left its loop; when it has returned, the pipeline is drained.
\<close>

definition orderly :: "pipeline \<Rightarrow> bool" where
  "orderly s \<longleftrightarrow>
     (main_at s \<noteq> Reading \<or> (reader_left s \<noteq> [] \<and> last (reader_left s) = Return None))
     \<and> (main_at s \<noteq> WaitWriter \<or> list_all (\<lambda>w. w = Exited) (workers s))
     \<and> (main_at s \<noteq> Returned \<or> drained s)"

text \<open>An input of one line whose scan ends at the end of the file.\<close>

definition good_file :: input_file where
  "good_file = \<lparr>open_res = OpenOk, scan_lines = [validCombinedLog], scan_failed = False\<rparr>"

section \<open>Properties\<close>

subsection \<open>Properties of the reader\<close>

text \<open>
  The loop invariant: the events so far are sends of full batches, the batch being
  filled is short of full, and no non-empty line is lost or reordered.
\<close>

lemma scan_loop_inv:
  assumes "scan_loop B ls batch sent = (batch', sent')"
    and "0 < B"
    and "int (length batch) < B"
    and "sent = map Send bs"
    and "\<forall>b \<in> set bs. int (length b) = B"
  shows "\<exists>bs'. sent' = map Send bs'
           \<and> (\<forall>b \<in> set bs'. int (length b) = B)
           \<and> int (length batch') < B
           \<and> concat bs' @ batch' = concat bs @ batch @ filter (\<lambda>l. l \<noteq> []) ls"
  using assms
proof (induction ls arbitrary: batch sent bs)
  case Nil
  then show ?case by auto
next
  case (Cons line rest)
  show ?case
  proof (cases "line = []")
    case True
    with Cons.prems have "scan_loop B rest batch sent = (batch', sent')" by simp
    from Cons.IH [OF this Cons.prems(2) Cons.prems(3) Cons.prems(4) Cons.prems(5)] True
    show ?thesis by simp
  next
    case False
    show ?thesis
    proof (cases "int (length (batch @ [line])) = B")
      case full: True
      with False Cons.prems
      have run: "scan_loop B rest [] (sent @ [Send (batch @ [line])]) = (batch', sent')"
        by (simp add: Let_def)
      have s: "sent @ [Send (batch @ [line])] = map Send (bs @ [batch @ [line]])"
        using Cons.prems(4) by simp
      have a: "\<forall>b \<in> set (bs @ [batch @ [line]]). int (length b) = B"
        using Cons.prems(5) full by auto
      have e: "int (length ([] :: string list)) < B" using Cons.prems(2) by simp
      from Cons.IH [OF run Cons.prems(2) e s a] False
      show ?thesis by auto
    next
      case notfull: False
      with False Cons.prems
      have run: "scan_loop B rest (batch @ [line]) sent = (batch', sent')"
        by (simp add: Let_def)
      have l: "int (length (batch @ [line])) < B"
        using Cons.prems(3) notfull by simp
      from Cons.IH [OF run Cons.prems(2) l Cons.prems(4) Cons.prems(5)] False
      show ?thesis by auto
    qed
  qed
qed

text \<open>
  Outside the capacities that \<^verbatim>\<open>makeslice\<close> accepts the reader sends
  nothing and returns nothing: it panics at line 51.
\<close>

lemma makeslice_panics_iff: "makeslice_panics B \<longleftrightarrow> B < 0 \<or> 2 ^ 44 < B"
  by (auto simp: makeslice_panics_def maxAlloc_def sizeof_string_def)

lemma ReadAndBatch_panics:
  "open_res f = OpenOk \<Longrightarrow> B < 0 \<or> 2 ^ 44 < B \<Longrightarrow> ReadAndBatch B f = [PanicMakeslice]"
  by (simp add: ReadAndBatch_def makeslice_panics_iff)

text \<open>
  C8. With the input opened and a batch size that is positive and no more than the
  \<open>2\<^sup>4\<^sup>4\<close> strings a slice can be made for, \<^verbatim>\<open>ReadAndBatch\<close>
  sends batches and then returns, and nothing else: empty lines are in no batch and
  do not count (the batches, concatenated, are the non-empty lines in their order),
  no batch is empty, every batch but the last holds exactly \<^verbatim>\<open>BatchSize\<close>
  lines and the last at most that many, and the value returned, after the last send,
  is the read error exactly when the scan failed.
\<close>

theorem ReadAndBatch_batches:
  assumes "open_res f = OpenOk" and "0 < B" and "B \<le> 2 ^ 44"
  shows "\<exists>bs. ReadAndBatch B f =
            map Send bs @ [Return (if scan_failed f then Some ErrorReadingFile else None)]
          \<and> concat bs = filter (\<lambda>l. l \<noteq> []) (scan_lines f)
          \<and> (\<forall>b \<in> set bs. b \<noteq> [] \<and> int (length b) \<le> B)
          \<and> (\<forall>b \<in> set (butlast bs). int (length b) = B)"
proof -
  obtain batch sent where run: "scan_loop B (scan_lines f) [] [] = (batch, sent)"
    by (cases "scan_loop B (scan_lines f) [] []") auto
  have "\<exists>bs'. sent = map Send bs'
           \<and> (\<forall>b \<in> set bs'. int (length b) = B)
           \<and> int (length batch) < B
           \<and> concat bs' @ batch = concat [] @ [] @ filter (\<lambda>l. l \<noteq> []) (scan_lines f)"
    by (rule scan_loop_inv [OF run assms(2)]) (use assms(2) in simp_all)
  then obtain bs' where sent: "sent = map Send bs'"
    and full: "\<forall>b \<in> set bs'. int (length b) = B"
    and short: "int (length batch) < B"
    and all: "concat bs' @ batch = filter (\<lambda>l. l \<noteq> []) (scan_lines f)"
    by auto
  define bs where "bs = (if batch = [] then bs' else bs' @ [batch])"
  have tr: "ReadAndBatch B f =
      map Send bs @ [Return (if scan_failed f then Some ErrorReadingFile else None)]"
    using assms run sent by (simp add: ReadAndBatch_def makeslice_panics_iff bs_def)
  have c: "concat bs = filter (\<lambda>l. l \<noteq> []) (scan_lines f)"
    using all by (auto simp: bs_def)
  have n: "\<forall>b \<in> set bs. b \<noteq> [] \<and> int (length b) \<le> B"
    using full short assms(2) by (auto simp: bs_def)
  have b: "\<forall>b \<in> set (butlast bs). int (length b) = B"
    using full by (auto simp: bs_def butlast_append dest: in_set_butlastD)
  from tr c n b show ?thesis by blast
qed

theorem ReadAndBatch_batches_witness:
  "open_res \<lparr>open_res = OpenOk,
        scan_lines = [''a'', '''', ''b'', ''c'', '''', ''''], scan_failed = True\<rparr> = OpenOk
   \<and> (0::int) < 2 \<and> (2::int) \<le> 2 ^ 44
   \<and> (\<exists>bs. ReadAndBatch 2 \<lparr>open_res = OpenOk,
        scan_lines = [''a'', '''', ''b'', ''c'', '''', ''''], scan_failed = True\<rparr>
          = map Send bs @ [Return (Some ErrorReadingFile)]
        \<and> concat bs = [''a'', ''b'', ''c'']
        \<and> (\<forall>b \<in> set bs. b \<noteq> [] \<and> int (length b) \<le> 2)
        \<and> (\<forall>b \<in> set (butlast bs). int (length b) = 2))"
  using ReadAndBatch_batches [of "\<lparr>open_res = OpenOk,
        scan_lines = [''a'', '''', ''b'', ''c'', '''', ''''], scan_failed = True\<rparr>" 2]
  by simp

subsection \<open>Properties of the writer\<close>

lemma exec_loop_rows: "rows (snd (exec_loop env i b (t, w))) = rows w"
  by (induction b arbitrary: i t w)
     (auto simp: stmt_Exec_def tx_Rollback_def Let_def split: prod.splits option.splits if_splits)

lemma exec_loop_tx: "fst (exec_loop env i b (t, w)) = fst (exec_loop env i b (t, w'))"
  by (induction b arbitrary: i t w w')
     (auto simp: stmt_Exec_def tx_Rollback_def Let_def split: prod.splits option.splits if_splits)

lemma exec_loop_fail:
  assumes "\<not> tx_done t" and "k < length b" and "exec_fails env (i + k)"
    and "\<forall>j<k. \<not> exec_fails env (i + j)"
  shows "tx_done (fst (exec_loop env i b (t, w)))
       \<and> calls (snd (exec_loop env i b (t, w)))
           = calls w @ map CExec (take (Suc k) b) @ [CRollback]
       \<and> wlog (snd (exec_loop env i b (t, w)))
           = wlog w @ [Printf ''write routine failed to insert: %v'' [AErr ErrDriver]]
               @ (if rollback_fails env
                  then [Printf ''write routine failed to roll back transaction: %v'' [AErr ErrDriver]]
                  else [])"
  using assms
proof (induction b arbitrary: i k t w)
  case Nil
  then show ?case by simp
next
  case (Cons p ps)
  show ?case
  proof (cases k)
    case 0
    with Cons.prems show ?thesis
      by (simp add: stmt_Exec_def tx_Rollback_def Let_def)
  next
    case (Suc k')
    from Cons.prems(4) Suc have ok: "\<not> exec_fails env i" by force
    have nd: "\<not> tx_done (t\<lparr>pending := pending t @ [p]\<rparr>)" using Cons.prems(1) by simp
    have kl: "k' < length ps" using Cons.prems(2) Suc by simp
    have f: "exec_fails env (Suc i + k')" using Cons.prems(3) Suc by simp
    have a: "\<forall>j<k'. \<not> exec_fails env (Suc i + j)"
    proof (intro allI impI)
      fix j assume "j < k'"
      then have "Suc j < k" using Suc by simp
      with Cons.prems(4) have "\<not> exec_fails env (i + Suc j)" by blast
      then show "\<not> exec_fails env (Suc i + j)" by simp
    qed
    from Cons.IH [OF nd kl f a] ok Cons.prems(1) Suc
    show ?thesis by (simp add: stmt_Exec_def)
  qed
qed

lemma insert_one_rows_cong:
  assumes "rows w = rows w'"
  shows "rows (insert_one env b w) = rows (insert_one env b w')"
proof -
  have t: "\<And>t v v'. fst (exec_loop env 0 b (t, v)) = fst (exec_loop env 0 b (t, v'))"
    by (rule exec_loop_tx)
  have r: "\<And>t v. rows (snd (exec_loop env 0 b (t, v))) = rows v"
    by (rule exec_loop_rows)
  show ?thesis
  proof (cases "begin_fails env")
    case True
    then show ?thesis using assms by (simp add: insert_one_def conn_Begin_def Let_def)
  next
    case False
    show ?thesis
    proof (cases "prepare_fails env")
      case True
      then show ?thesis using assms False
        by (simp add: insert_one_def conn_Begin_def tx_Prepare_def Let_def split: option.splits)
    next
      case pf: False
      let ?t = "\<lparr>pending = [], tx_done = False\<rparr>"
      let ?v = "w\<lparr>wlog := wlog w @ [Debug ''write routine beginning insert'' []],
                   calls := calls w @ [CBegin, CPrepare]\<rparr>"
      let ?v' = "w'\<lparr>wlog := wlog w' @ [Debug ''write routine beginning insert'' []],
                   calls := calls w' @ [CBegin, CPrepare]\<rparr>"
      obtain t1 w1 where e1: "exec_loop env 0 b (?t, ?v) = (t1, w1)"
        by (cases "exec_loop env 0 b (?t, ?v)") auto
      obtain t1' w1' where e2: "exec_loop env 0 b (?t, ?v') = (t1', w1')"
        by (cases "exec_loop env 0 b (?t, ?v')") auto
      have tt: "t1 = t1'" using t [of ?t ?v ?v'] e1 e2 by simp
      have r1: "rows w1 = rows w" using r [of ?t ?v] e1 by simp
      have r2: "rows w1' = rows w'" using r [of ?t ?v'] e2 by simp
      show ?thesis using False pf e1 e2 tt r1 r2 assms
        by (simp add: insert_one_def conn_Begin_def tx_Prepare_def tx_Commit_def Let_def
            split: option.splits prod.splits)
    qed
  qed
qed

lemma InsertBatch_rows_cong:
  "rows w = rows w' \<Longrightarrow> rows (InsertBatch bs w) = rows (InsertBatch bs w')"
proof (induction bs arbitrary: w w')
  case Nil
  then show ?case by simp
next
  case (Cons a bs)
  obtain b env where a: "a = (b, env)" by (cases a)
  have "rows (insert_one env b w) = rows (insert_one env b w')"
    using Cons.prems by (rule insert_one_rows_cong)
  from Cons.IH [OF this] a show ?case by simp
qed

lemma least_failing:
  assumes "\<exists>k<length b. exec_fails env k"
  obtains k where "k < length b" and "exec_fails env k" and "\<forall>j<k. \<not> exec_fails env j"
proof -
  from assms obtain k0 where k0: "k0 < length b \<and> exec_fails env k0" by blast
  define k where "k = (LEAST k. k < length b \<and> exec_fails env k)"
  have 1: "k < length b \<and> exec_fails env k"
    unfolding k_def using k0 by (rule LeastI)
  have 2: "\<forall>j<k. \<not> exec_fails env j"
  proof (intro allI impI)
    fix j assume jk: "j < k"
    then have "\<not> (j < length b \<and> exec_fails env j)"
      unfolding k_def by (rule not_less_Least)
    moreover have "j < length b" using jk 1 by simp
    ultimately show "\<not> exec_fails env j" by simp
  qed
  from 1 2 that show ?thesis by blast
qed

lemma insert_one_failed:
  assumes "\<not> begin_fails env" and "\<not> prepare_fails env"
    and "k < length b" and "exec_fails env k" and "\<forall>j<k. \<not> exec_fails env j"
  shows "rows (insert_one env b w) = rows w
       \<and> calls (insert_one env b w)
           = calls w @ [CBegin, CPrepare] @ map CExec (take (Suc k) b)
               @ [CRollback, CStmtClose, CCommit]
       \<and> wlog (insert_one env b w)
           = wlog w @ [Debug ''write routine beginning insert'' [],
                       Printf ''write routine failed to insert: %v'' [AErr ErrDriver]]
               @ (if rollback_fails env
                  then [Printf ''write routine failed to roll back transaction: %v'' [AErr ErrDriver]]
                  else [])
               @ (if close_fails env
                  then [Println ''write routine failed to close statement: %v'' [AErr ErrDriver]]
                  else [])
               @ [Println ''write routine failed to commit transaction: %v'' [AErr ErrTxDone]]"
proof -
  let ?t = "\<lparr>pending = [], tx_done = False\<rparr>"
  let ?v = "w\<lparr>wlog := wlog w @ [Debug ''write routine beginning insert'' []],
               calls := calls w @ [CBegin, CPrepare]\<rparr>"
  obtain t1 w1 where e1: "exec_loop env 0 b (?t, ?v) = (t1, w1)"
    by (cases "exec_loop env 0 b (?t, ?v)") auto
  have nd: "\<not> tx_done ?t" by simp
  have f: "exec_fails env (0 + k)" using assms(4) by simp
  have a: "\<forall>j<k. \<not> exec_fails env (0 + j)" using assms(5) by simp
  from exec_loop_fail [OF nd assms(3) f a, of ?v] e1
  have d: "tx_done t1"
    and c: "calls w1 = calls w @ [CBegin, CPrepare] @ map CExec (take (Suc k) b) @ [CRollback]"
    and l: "wlog w1 = wlog w @ [Debug ''write routine beginning insert'' [],
                       Printf ''write routine failed to insert: %v'' [AErr ErrDriver]]
               @ (if rollback_fails env
                  then [Printf ''write routine failed to roll back transaction: %v'' [AErr ErrDriver]]
                  else [])"
    by simp_all
  have r: "rows w1 = rows w" using exec_loop_rows [of env 0 b ?t ?v] e1 by simp
  show ?thesis using assms(1,2) e1 d c l r
    by (simp add: insert_one_def conn_Begin_def tx_Prepare_def tx_Commit_def stmt_Close_def Let_def)
qed

text \<open>
  C3. In a batch in which an insert fails (the transaction was begun and the statement
  prepared), no record of the batch is committed: the records after the failing one
  are not executed, the transaction is rolled back, and the committed rows stay as
  they were. The writer goes on with the later batches, and what they commit is what
  they would have committed had the failed batch never arrived.
\<close>

theorem InsertBatch_failed_insert_rolls_back:
  assumes "\<not> begin_fails env" and "\<not> prepare_fails env"
    and "\<exists>k<length b. exec_fails env k"
  shows "rows (insert_one env b w) = rows w
       \<and> (\<exists>k<length b. calls (insert_one env b w)
             = calls w @ [CBegin, CPrepare] @ map CExec (take (Suc k) b)
                 @ [CRollback, CStmtClose, CCommit])
       \<and> rows (InsertBatch ((b, env) # later) w) = rows (InsertBatch later w)"
proof -
  from assms(3) obtain k where k: "k < length b" "exec_fails env k" "\<forall>j<k. \<not> exec_fails env j"
    by (rule least_failing)
  note one = insert_one_failed [OF assms(1,2) k, of w]
  from one have r: "rows (insert_one env b w) = rows w" by simp
  have "rows (InsertBatch later (insert_one env b w)) = rows (InsertBatch later w)"
    using r by (rule InsertBatch_rows_cong)
  with one k(1) show ?thesis by auto
qed

theorem InsertBatch_failed_insert_rolls_back_witness:
  "\<not> begin_fails (env_ok\<lparr>exec_fails := (\<lambda>i. i = 1)\<rparr>)
   \<and> \<not> prepare_fails (env_ok\<lparr>exec_fails := (\<lambda>i. i = 1)\<rparr>)
   \<and> (\<exists>k<length [test_record, test_record, test_record].
         exec_fails (env_ok\<lparr>exec_fails := (\<lambda>i. i = 1)\<rparr>) k)
   \<and> rows (insert_one (env_ok\<lparr>exec_fails := (\<lambda>i. i = 1)\<rparr>)
         [test_record, test_record, test_record] writer_init) = []
   \<and> rows (InsertBatch [([test_record, test_record, test_record],
                            env_ok\<lparr>exec_fails := (\<lambda>i. i = 1)\<rparr>),
                          ([test_record], env_ok)] writer_init)
       = rows (InsertBatch [([test_record], env_ok)] writer_init)
   \<and> rows (InsertBatch [([test_record], env_ok)] writer_init) = [test_record]"
proof -
  have h1: "\<not> begin_fails (env_ok\<lparr>exec_fails := (\<lambda>i. i = 1)\<rparr>)"
    by (simp add: env_ok_def)
  have h2: "\<not> prepare_fails (env_ok\<lparr>exec_fails := (\<lambda>i. i = 1)\<rparr>)"
    by (simp add: env_ok_def)
  have h3: "\<exists>k<length [test_record, test_record, test_record].
         exec_fails (env_ok\<lparr>exec_fails := (\<lambda>i. i = 1)\<rparr>) k"
    by (rule exI [of _ 1]) simp
  have ok: "rows (InsertBatch [([test_record], env_ok)] writer_init) = [test_record]"
    by (simp add: insert_one_def conn_Begin_def tx_Prepare_def tx_Commit_def stmt_Close_def
        stmt_Exec_def Let_def env_ok_def writer_init_def)
  from InsertBatch_failed_insert_rolls_back [OF h1 h2 h3, of writer_init "[([test_record], env_ok)]"]
    h1 h2 h3 ok
  show ?thesis by (simp add: writer_init_def)
qed

text \<open>
  C10. In a batch in which an insert fails, after the rollback the writer still calls
  the statement's \<^verbatim>\<open>Close\<close> and the transaction's \<^verbatim>\<open>Commit\<close>.
  The commit is refused with \<^verbatim>\<open>ErrTxDone\<close>, the refusal is the last
  message logged for the batch, and the committed rows stay as they were.
\<close>

theorem InsertBatch_failed_batch_commit_attempt:
  assumes "\<not> begin_fails env" and "\<not> prepare_fails env"
    and "\<exists>k<length b. exec_fails env k"
  shows "(\<exists>cs. calls (insert_one env b w) = calls w @ cs @ [CRollback, CStmtClose, CCommit])
       \<and> (\<exists>ms. wlog (insert_one env b w) = wlog w @ ms @
             [Println ''write routine failed to commit transaction: %v'' [AErr ErrTxDone]])
       \<and> rows (insert_one env b w) = rows w"
proof -
  from assms(3) obtain k where k: "k < length b" "exec_fails env k" "\<forall>j<k. \<not> exec_fails env j"
    by (rule least_failing)
  note one = insert_one_failed [OF assms(1,2) k, of w]
  have c: "calls (insert_one env b w)
      = calls w @ ([CBegin, CPrepare] @ map CExec (take (Suc k) b)) @ [CRollback, CStmtClose, CCommit]"
    using one by simp
  have l: "wlog (insert_one env b w)
      = wlog w @ ([Debug ''write routine beginning insert'' [],
                   Printf ''write routine failed to insert: %v'' [AErr ErrDriver]]
               @ (if rollback_fails env
                  then [Printf ''write routine failed to roll back transaction: %v'' [AErr ErrDriver]]
                  else [])
               @ (if close_fails env
                  then [Println ''write routine failed to close statement: %v'' [AErr ErrDriver]]
                  else []))
          @ [Println ''write routine failed to commit transaction: %v'' [AErr ErrTxDone]]"
    using one by simp
  from c l one show ?thesis by blast
qed

theorem InsertBatch_failed_batch_commit_attempt_witness:
  "\<not> begin_fails (env_ok\<lparr>exec_fails := (\<lambda>i. i = 0)\<rparr>)
   \<and> \<not> prepare_fails (env_ok\<lparr>exec_fails := (\<lambda>i. i = 0)\<rparr>)
   \<and> (\<exists>k<length [test_record, test_record]. exec_fails (env_ok\<lparr>exec_fails := (\<lambda>i. i = 0)\<rparr>) k)
   \<and> calls (insert_one (env_ok\<lparr>exec_fails := (\<lambda>i. i = 0)\<rparr>) [test_record, test_record] writer_init)
       = [CBegin, CPrepare, CExec test_record, CRollback, CStmtClose, CCommit]
   \<and> wlog (insert_one (env_ok\<lparr>exec_fails := (\<lambda>i. i = 0)\<rparr>) [test_record, test_record] writer_init)
       = [Debug ''write routine beginning insert'' [],
          Printf ''write routine failed to insert: %v'' [AErr ErrDriver],
          Println ''write routine failed to commit transaction: %v'' [AErr ErrTxDone]]
   \<and> rows (insert_one (env_ok\<lparr>exec_fails := (\<lambda>i. i = 0)\<rparr>) [test_record, test_record] writer_init)
       = rows writer_init"
proof -
  have h1: "\<not> begin_fails (env_ok\<lparr>exec_fails := (\<lambda>i. i = 0)\<rparr>)"
    by (simp add: env_ok_def)
  have h2: "\<not> prepare_fails (env_ok\<lparr>exec_fails := (\<lambda>i. i = 0)\<rparr>)"
    by (simp add: env_ok_def)
  have h3: "\<exists>k<length [test_record, test_record].
         exec_fails (env_ok\<lparr>exec_fails := (\<lambda>i. i = 0)\<rparr>) k"
    by (rule exI [of _ 0]) simp
  have c: "calls (insert_one (env_ok\<lparr>exec_fails := (\<lambda>i. i = 0)\<rparr>) [test_record, test_record] writer_init)
       = [CBegin, CPrepare, CExec test_record, CRollback, CStmtClose, CCommit]"
    by (simp add: insert_one_def conn_Begin_def tx_Prepare_def tx_Commit_def stmt_Close_def
        stmt_Exec_def tx_Rollback_def Let_def env_ok_def writer_init_def)
  have l: "wlog (insert_one (env_ok\<lparr>exec_fails := (\<lambda>i. i = 0)\<rparr>) [test_record, test_record] writer_init)
       = [Debug ''write routine beginning insert'' [],
          Printf ''write routine failed to insert: %v'' [AErr ErrDriver],
          Println ''write routine failed to commit transaction: %v'' [AErr ErrTxDone]]"
    by (simp add: insert_one_def conn_Begin_def tx_Prepare_def tx_Commit_def stmt_Close_def
        stmt_Exec_def tx_Rollback_def Let_def env_ok_def writer_init_def)
  from InsertBatch_failed_batch_commit_attempt [OF h1 h2 h3, of writer_init] h1 h2 h3 c l
  show ?thesis by simp
qed

subsection \<open>Properties of the parser\<close>

lemma parseLog_Some:
  "FindStringSubmatch l = Some ms \<Longrightarrow> \<exists>lg p. parseLog l = (lg, Inr p)"
  by (simp add: parseLog_def Let_def split_def)

lemma parseLog_Inl:
  "FindStringSubmatch l = None \<Longrightarrow> parseLog l = ([], Inl (ErrInvalidLogFormat l))"
  by (simp add: parseLog_def)

lemma parse_lines_snd:
  "map Inr (snd (parse_lines ls (lg, acc)))
     = map Inr acc @ map (\<lambda>l. snd (parseLog l)) (filter (\<lambda>l. FindStringSubmatch l \<noteq> None) ls)"
proof (induction ls arbitrary: lg acc)
  case Nil
  then show ?case by simp
next
  case (Cons l ls)
  show ?case
  proof (cases "FindStringSubmatch l")
    case None
    then show ?thesis using Cons.IH by (simp add: parseLog_Inl)
  next
    case (Some ms)
    then obtain lg1 p where pl: "parseLog l = (lg1, Inr p)" using parseLog_Some by blast
    then show ?thesis using Cons.IH Some by simp
  qed
qed

lemma parse_lines_length:
  "length (snd (parse_lines ls (lg, acc))) \<le> length acc + length ls"
proof (induction ls arbitrary: lg acc)
  case Nil
  then show ?case by simp
next
  case (Cons l ls)
  obtain lg1 r where pl: "parseLog l = (lg1, r)" by (cases "parseLog l")
  show ?case
  proof (cases r)
    case (Inl e)
    with pl Cons.IH [of "lg @ lg1 @ [Println ''error parsing log: '' [AErr e]]" acc]
    show ?thesis by simp
  next
    case (Inr p)
    with pl Cons.IH [of "lg @ lg1" "acc @ [p]"]
    show ?thesis by simp
  qed
qed

lemma ParseBatch_snd:
  "snd (ParseBatch wid batches) = map (\<lambda>b. snd (parse_batch wid b)) batches"
  by (induction batches) (auto simp: Let_def split: prod.splits)

text \<open>
  C1. A worker sends one parsed batch for each batch it takes. The parsed batch is no
  longer than the batch, and its records are, in the order of the lines, the results
  of \<^verbatim>\<open>parseLog\<close> on exactly the lines of the batch that match the pattern:
  a line that does not match leaves no record.
\<close>

theorem ParseBatch_keeps_matching_lines:
  "snd (ParseBatch wid batches) = map (\<lambda>b. snd (parse_batch wid b)) batches
   \<and> length (snd (parse_batch wid batch)) \<le> length batch
   \<and> map Inr (snd (parse_batch wid batch))
       = map (\<lambda>l. snd (parseLog l)) (filter (\<lambda>l. FindStringSubmatch l \<noteq> None) batch)"
proof -
  have 1: "length (snd (parse_batch wid batch)) \<le> length batch"
    using parse_lines_length
      [of batch "[Debugf ''routine %d beginning to parse a batch of %d logs''
                   [AInt wid, AInt (int (length batch))]]" "[]"]
    by (auto simp: parse_batch_def Let_def split: prod.splits)
  have 2: "map Inr (snd (parse_batch wid batch))
       = map (\<lambda>l. snd (parseLog l)) (filter (\<lambda>l. FindStringSubmatch l \<noteq> None) batch)"
    using parse_lines_snd
      [of batch "[Debugf ''routine %d beginning to parse a batch of %d logs''
                   [AInt wid, AInt (int (length batch))]]" "[]"]
    by (auto simp: parse_batch_def Let_def split: prod.splits)
  from 1 2 ParseBatch_snd show ?thesis by blast
qed

lemma FindStringSubmatch_validCombinedLog:
  "FindStringSubmatch validCombinedLog = Some
     [validCombinedLog, ''127.0.0.1'', ''user-identifier'', ''frank'',
      ''10/Oct/2000:13:55:36 -0700'', ''GET'', ''/apache_pb.gif?param1=test'', ''HTTP/1.0'',
      ''200'', ''2326'', ''referrer'', ''agent'']"
  by code_simp

lemma FindStringSubmatch_invalid: "FindStringSubmatch ''Invalid log format'' = None"
  by code_simp

lemma parseLog_validCombinedLog: "parseLog validCombinedLog = ([], Inr test_record)"
  by code_simp

theorem ParseBatch_keeps_matching_lines_witness:
  "snd (ParseBatch 1 [[''Invalid log format'', validCombinedLog]]) = [[test_record]]
   \<and> length (snd (parse_batch 1 [''Invalid log format'', validCombinedLog])) \<le> 2
   \<and> map Inr (snd (parse_batch 1 [''Invalid log format'', validCombinedLog]))
       = [snd (parseLog validCombinedLog)]"
  using ParseBatch_keeps_matching_lines [of 1 "[[''Invalid log format'', validCombinedLog]]"
      "[''Invalid log format'', validCombinedLog]"]
  by (auto simp: FindStringSubmatch_validCombinedLog FindStringSubmatch_invalid
      parseLog_validCombinedLog map_eq_Cons_conv split: prod.splits)

lemma foldl_decimal_ge:
  "0 \<le> n \<Longrightarrow> n \<le> foldl (\<lambda>n c. n * 10 + int (digit_val c)) n cs"
proof (induction cs arbitrary: n)
  case Nil
  then show ?case by simp
next
  case (Cons c cs)
  have "0 \<le> n * 10 + int (digit_val c)" using Cons.prems by simp
  from Cons.IH [OF this] Cons.prems show ?case by simp
qed

lemma ParseUint_loop_decimal:
  assumes "list_all is_digit cs" and "0 \<le> n"
    and "foldl (\<lambda>n c. n * 10 + int (digit_val c)) n cs < 2 ^ 64"
  shows "ParseUint_loop s0 (2 ^ 64 - 1) n cs
           = Inr (foldl (\<lambda>n c. n * 10 + int (digit_val c)) n cs)"
  using assms
proof (induction cs arbitrary: n)
  case Nil
  then show ?case by simp
next
  case (Cons c cs)
  let ?n' = "n * 10 + int (digit_val c)"
  have pos: "0 \<le> ?n'" using Cons.prems(2) by simp
  have "?n' \<le> foldl (\<lambda>n c. n * 10 + int (digit_val c)) ?n' cs"
    using pos by (rule foldl_decimal_ge)
  with Cons.prems(3) have small: "?n' < 2 ^ 64" by simp
  have n10: "n * 10 < 2 ^ 64" using small by simp
  have cut: "\<not> cutoff \<le> n" using n10 by (simp add: cutoff_def)
  have m10: "(n * 10) mod 2 ^ 64 = n * 10"
    using n10 Cons.prems(2) by (simp add: mod_pos_pos_trivial)
  have m1: "?n' mod 2 ^ 64 = ?n'"
    using small pos by (simp add: mod_pos_pos_trivial)
  have dig: "is_digit c" and rest: "list_all is_digit cs" using Cons.prems(1) by simp_all
  have "ParseUint_loop s0 (2 ^ 64 - 1) ?n' cs
           = Inr (foldl (\<lambda>n c. n * 10 + int (digit_val c)) ?n' cs)"
    using rest pos Cons.prems(3) by (intro Cons.IH) simp_all
  then show ?case using dig cut m10 m1 small by (simp add: Let_def)
qed

lemma ParseUint_decimal:
  assumes "ds \<noteq> []" and "list_all is_digit ds" and "decimal_value ds < 2 ^ 64"
  shows "ParseUint ds 64 = Inr (decimal_value ds)"
  using assms ParseUint_loop_decimal [of ds 0 ds]
  by (simp add: ParseUint_def decimal_value_def)

lemma parse_referer_agent_BytesSent [simp]:
  "BytesSent (parse_referer_agent ms p) = BytesSent p"
  by (simp add: parse_referer_agent_def Let_def)

lemma parse_response_code_log:
  "list_all early_diag (fst st) \<Longrightarrow> list_all early_diag (fst (parse_response_code ms st))"
  by (simp add: parse_response_code_def early_diag_def split: sum.splits)

lemma parse_timestamp_log:
  "list_all early_diag (fst st) \<Longrightarrow> list_all early_diag (fst (parse_timestamp ms st))"
  by (simp add: parse_timestamp_def early_diag_def split: sum.splits)

lemma BytesSent_parse_route [simp]: "BytesSent (parse_route ms p) = BytesSent p"
  by (simp add: parse_route_def Let_def)

lemma BytesSent_parse_response_code [simp]:
  "BytesSent (snd (parse_response_code ms st)) = BytesSent (snd st)"
  by (simp add: parse_response_code_def split: sum.splits)

lemma BytesSent_parse_timestamp [simp]:
  "BytesSent (snd (parse_timestamp ms st)) = BytesSent (snd st)"
  by (simp add: parse_timestamp_def split: sum.splits)

lemma parseLog_stages:
  assumes "FindStringSubmatch l = Some ms"
  shows "\<exists>log4 p4.
           parseLog l = (fst (parse_bytes_sent ms (log4, p4)),
                         Inr (parse_referer_agent ms (snd (parse_bytes_sent ms (log4, p4)))))
         \<and> list_all early_diag log4
         \<and> ((\<exists>rc t. ParseUint (ms ! 8) 16 = Inr rc \<and> time_Parse (ms ! 4) = Inr t) \<longrightarrow> log4 = [])
         \<and> BytesSent p4 = 0"
proof -
  let ?st = "parse_timestamp ms (parse_response_code ms ([], parse_route ms (new_log ms)))"
  have "list_all early_diag (fst ?st)"
    by (intro parse_timestamp_log parse_response_code_log) simp
  moreover have "parseLog l = (fst (parse_bytes_sent ms (fst ?st, snd ?st)),
                   Inr (parse_referer_agent ms (snd (parse_bytes_sent ms (fst ?st, snd ?st)))))"
    using assms by (simp add: parseLog_def Let_def)
  moreover have "(\<exists>rc t. ParseUint (ms ! 8) 16 = Inr rc \<and> time_Parse (ms ! 4) = Inr t)
                   \<longrightarrow> fst ?st = []"
    by (auto simp: parse_timestamp_def parse_response_code_def)
  moreover have "BytesSent (snd ?st) = 0"
    by (simp add: new_log_def)
  ultimately show ?thesis by blast
qed

lemma ParseUint_dash: "ParseUint ''-'' 64 = Inl (ErrSyntax ''-'')"
  by (simp add: ParseUint_def is_digit_def byte_def)

text \<open>
  C5. For a line that matches the pattern: when the bytes-sent group is \<^verbatim>\<open>-\<close>,
  the line is parsed, the bytes field is 0, and all that is logged is what the response
  code and the timestamp caused (nothing when both are well formed); when the group is
  any other text that \<^verbatim>\<open>ParseUint\<close> rejects, the line is parsed, the bytes
  field is 0, and the diagnostic of the bytes sent is logged after those.
\<close>

theorem parseLog_bytes_sent_default:
  assumes "FindStringSubmatch l = Some ms"
  shows "(ms ! 9 = ''-'' \<longrightarrow>
            (\<exists>lg p. parseLog l = (lg, Inr p) \<and> BytesSent p = 0 \<and> list_all early_diag lg
               \<and> ((\<exists>rc t. ParseUint (ms ! 8) 16 = Inr rc \<and> time_Parse (ms ! 4) = Inr t)
                     \<longrightarrow> lg = [])))
       \<and> (\<forall>err. ms ! 9 \<noteq> ''-'' \<and> ParseUint (ms ! 9) 64 = Inl err \<longrightarrow>
            (\<exists>lg p. parseLog l =
                (lg @ [Debugf ''error parsing bytes sent: %v. proceeding with default value''
                         [AErr err]], Inr p)
               \<and> BytesSent p = 0 \<and> list_all early_diag lg
               \<and> ((\<exists>rc t. ParseUint (ms ! 8) 16 = Inr rc \<and> time_Parse (ms ! 4) = Inr t)
                     \<longrightarrow> lg = [])))"
proof -
  from parseLog_stages [OF assms] obtain log4 p4 where
    pl: "parseLog l = (fst (parse_bytes_sent ms (log4, p4)),
                       Inr (parse_referer_agent ms (snd (parse_bytes_sent ms (log4, p4)))))"
    and diag: "list_all early_diag log4"
    and quiet: "(\<exists>rc t. ParseUint (ms ! 8) 16 = Inr rc \<and> time_Parse (ms ! 4) = Inr t) \<longrightarrow> log4 = []"
    and zero: "BytesSent p4 = 0"
    by blast
  have dash: "ms ! 9 = ''-'' \<longrightarrow>
            (\<exists>lg p. parseLog l = (lg, Inr p) \<and> BytesSent p = 0 \<and> list_all early_diag lg
               \<and> ((\<exists>rc t. ParseUint (ms ! 8) 16 = Inr rc \<and> time_Parse (ms ! 4) = Inr t)
                     \<longrightarrow> lg = []))"
  proof
    assume d: "ms ! 9 = ''-''"
    have "parse_bytes_sent ms (log4, p4) = (log4, p4)"
      using d by (simp add: parse_bytes_sent_def ParseUint_dash)
    with pl have "parseLog l = (log4, Inr (parse_referer_agent ms p4))" by simp
    moreover have "BytesSent (parse_referer_agent ms p4) = 0" using zero by simp
    ultimately show "\<exists>lg p. parseLog l = (lg, Inr p) \<and> BytesSent p = 0 \<and> list_all early_diag lg
               \<and> ((\<exists>rc t. ParseUint (ms ! 8) 16 = Inr rc \<and> time_Parse (ms ! 4) = Inr t)
                     \<longrightarrow> lg = [])"
      using diag quiet by blast
  qed
  have other: "\<forall>err. ms ! 9 \<noteq> ''-'' \<and> ParseUint (ms ! 9) 64 = Inl err \<longrightarrow>
            (\<exists>lg p. parseLog l =
                (lg @ [Debugf ''error parsing bytes sent: %v. proceeding with default value''
                         [AErr err]], Inr p)
               \<and> BytesSent p = 0 \<and> list_all early_diag lg
               \<and> ((\<exists>rc t. ParseUint (ms ! 8) 16 = Inr rc \<and> time_Parse (ms ! 4) = Inr t)
                     \<longrightarrow> lg = []))"
  proof (intro allI impI)
    fix err assume e: "ms ! 9 \<noteq> ''-'' \<and> ParseUint (ms ! 9) 64 = Inl err"
    have "parse_bytes_sent ms (log4, p4)
            = (log4 @ [Debugf ''error parsing bytes sent: %v. proceeding with default value''
                         [AErr err]], p4)"
      using e by (simp add: parse_bytes_sent_def)
    with pl have "parseLog l
        = (log4 @ [Debugf ''error parsing bytes sent: %v. proceeding with default value''
                     [AErr err]], Inr (parse_referer_agent ms p4))" by simp
    moreover have "BytesSent (parse_referer_agent ms p4) = 0" using zero by simp
    ultimately show "\<exists>lg p. parseLog l =
                (lg @ [Debugf ''error parsing bytes sent: %v. proceeding with default value''
                         [AErr err]], Inr p)
               \<and> BytesSent p = 0 \<and> list_all early_diag lg
               \<and> ((\<exists>rc t. ParseUint (ms ! 8) 16 = Inr rc \<and> time_Parse (ms ! 4) = Inr t)
                     \<longrightarrow> lg = [])"
      using diag quiet by blast
  qed
  from dash other show ?thesis by blast
qed

lemma FindStringSubmatch_dashBytesLog:
  "FindStringSubmatch dashBytesLog = Some
     [dashBytesLog, ''127.0.0.1'', ''user-identifier'', ''frank'',
      ''10/Oct/2000:13:55:36 -0700'', ''GET'', ''/apache_pb.gif'', ''HTTP/1.0'',
      ''200'', ''-'', [], []]"
  by code_simp

lemma FindStringSubmatch_invalidBytesLog:
  "FindStringSubmatch invalidBytesLog = Some
     [invalidBytesLog, ''127.0.0.1'', ''user-identifier'', ''frank'',
      ''10/Oct/2000:13:55:36 -0700'', ''GET'', ''/apache_pb.gif?param1=test'', ''HTTP/1.0'',
      ''200'', ''abc'', ''referrer'', ''agent'']"
  by code_simp

lemma FindStringSubmatch_largeBytesLog:
  "FindStringSubmatch largeBytesLog = Some
     [largeBytesLog, ''127.0.0.1'', ''user-identifier'', ''frank'',
      ''10/Oct/2000:13:55:36 -0700'', ''GET'', ''/apache_pb.gif'', ''HTTP/1.0'',
      ''200'', ''4294967301'', [], []]"
  by code_simp

lemma parseLog_dashBytesLog:
  "parseLog dashBytesLog = ([], Inr \<lparr>IP = ''127.0.0.1'', Identity = ''user-identifier'',
     User = ''frank'', Time = ''10/Oct/2000:13:55:36 -0700'',
     TimestampUTC = ''2000-10-10T20:55:36Z'', Method = ''GET'', Route = ''/apache_pb.gif'',
     Params = ''-'', ResponseCode = 200, BytesSent = 0, Referer = ''-'', Agent = ''-''\<rparr>)"
  by code_simp

lemma parseLog_invalidBytesLog:
  "parseLog invalidBytesLog =
     ([Debugf ''error parsing bytes sent: %v. proceeding with default value''
         [AErr (ErrSyntax ''abc'')]],
      Inr \<lparr>IP = ''127.0.0.1'', Identity = ''user-identifier'',
     User = ''frank'', Time = ''10/Oct/2000:13:55:36 -0700'',
     TimestampUTC = ''2000-10-10T20:55:36Z'', Method = ''GET'', Route = ''/apache_pb.gif'',
     Params = ''param1=test'', ResponseCode = 200, BytesSent = 0, Referer = ''referrer'',
     Agent = ''agent''\<rparr>)"
  by code_simp

lemma parseLog_largeBytesLog:
  "parseLog largeBytesLog = ([], Inr \<lparr>IP = ''127.0.0.1'', Identity = ''user-identifier'',
     User = ''frank'', Time = ''10/Oct/2000:13:55:36 -0700'',
     TimestampUTC = ''2000-10-10T20:55:36Z'', Method = ''GET'', Route = ''/apache_pb.gif'',
     Params = ''-'', ResponseCode = 200, BytesSent = 5, Referer = ''-'', Agent = ''-''\<rparr>)"
  by code_simp

lemma ParseUint_abc: "ParseUint ''abc'' 64 = Inl (ErrSyntax ''abc'')"
  by (simp add: ParseUint_def is_digit_def byte_def)

theorem parseLog_bytes_sent_default_witness:
  "FindStringSubmatch dashBytesLog \<noteq> None
   \<and> the (FindStringSubmatch dashBytesLog) ! 9 = ''-''
   \<and> (\<exists>p. parseLog dashBytesLog = ([], Inr p) \<and> BytesSent p = 0)
   \<and> FindStringSubmatch invalidBytesLog \<noteq> None
   \<and> the (FindStringSubmatch invalidBytesLog) ! 9 = ''abc''
   \<and> ParseUint ''abc'' 64 = Inl (ErrSyntax ''abc'')
   \<and> (\<exists>p. parseLog invalidBytesLog =
         ([Debugf ''error parsing bytes sent: %v. proceeding with default value''
             [AErr (ErrSyntax ''abc'')]], Inr p) \<and> BytesSent p = 0)"
  using parseLog_bytes_sent_default [OF FindStringSubmatch_dashBytesLog]
        parseLog_bytes_sent_default [OF FindStringSubmatch_invalidBytesLog]
  by (simp add: FindStringSubmatch_dashBytesLog FindStringSubmatch_invalidBytesLog
      parseLog_dashBytesLog parseLog_invalidBytesLog ParseUint_abc)

text \<open>
  C9. For a line that matches the pattern and whose bytes-sent group is a string of
  decimal digits that writes a number below \<^verbatim>\<open>2^64\<close> (those from
  \<^verbatim>\<open>2^32\<close> on among them), the line is parsed, the bytes field is that
  number modulo \<^verbatim>\<open>2^32\<close>, and no diagnostic of the bytes sent is logged: all
  that is logged is what the response code and the timestamp caused.
\<close>

theorem parseLog_bytes_sent_truncated:
  assumes "FindStringSubmatch l = Some ms"
    and "ms ! 9 \<noteq> []" and "list_all is_digit (ms ! 9)"
    and "decimal_value (ms ! 9) < 2 ^ 64"
  shows "\<exists>lg p. parseLog l = (lg, Inr p)
           \<and> uint (BytesSent p) = decimal_value (ms ! 9) mod 2 ^ 32
           \<and> list_all early_diag lg
           \<and> ((\<exists>rc t. ParseUint (ms ! 8) 16 = Inr rc \<and> time_Parse (ms ! 4) = Inr t)
                 \<longrightarrow> lg = [])"
proof -
  from parseLog_stages [OF assms(1)] obtain log4 p4 where
    pl: "parseLog l = (fst (parse_bytes_sent ms (log4, p4)),
                       Inr (parse_referer_agent ms (snd (parse_bytes_sent ms (log4, p4)))))"
    and diag: "list_all early_diag log4"
    and quiet: "(\<exists>rc t. ParseUint (ms ! 8) 16 = Inr rc \<and> time_Parse (ms ! 4) = Inr t) \<longrightarrow> log4 = []"
    by blast
  have pu: "ParseUint (ms ! 9) 64 = Inr (decimal_value (ms ! 9))"
    using assms(2,3,4) by (rule ParseUint_decimal)
  have "parse_bytes_sent ms (log4, p4)
          = (log4, p4\<lparr>BytesSent := word_of_int (decimal_value (ms ! 9))\<rparr>)"
    using pu by (simp add: parse_bytes_sent_def)
  with pl have 1: "parseLog l = (log4, Inr (parse_referer_agent ms
                      (p4\<lparr>BytesSent := word_of_int (decimal_value (ms ! 9))\<rparr>)))" by simp
  have 2: "uint (BytesSent (parse_referer_agent ms
                      (p4\<lparr>BytesSent := word_of_int (decimal_value (ms ! 9))\<rparr>)))
             = decimal_value (ms ! 9) mod 2 ^ 32"
    by (simp add: uint_word_of_int take_bit_eq_mod)
  from 1 2 diag quiet show ?thesis by blast
qed

theorem parseLog_bytes_sent_truncated_witness:
  "FindStringSubmatch largeBytesLog \<noteq> None
   \<and> the (FindStringSubmatch largeBytesLog) ! 9 = ''4294967301''
   \<and> list_all is_digit ''4294967301''
   \<and> decimal_value ''4294967301'' = 2 ^ 32 + 5
   \<and> (\<exists>p. parseLog largeBytesLog = ([], Inr p) \<and> uint (BytesSent p) = 5)"
proof -
  have d: "list_all is_digit ''4294967301''" by (simp add: is_digit_def byte_def)
  have v: "decimal_value ''4294967301'' = 2 ^ 32 + 5"
    by (simp add: decimal_value_def digit_val_def byte_def)
  have h2: "[largeBytesLog, ''127.0.0.1'', ''user-identifier'', ''frank'',
      ''10/Oct/2000:13:55:36 -0700'', ''GET'', ''/apache_pb.gif'', ''HTTP/1.0'',
      ''200'', ''4294967301'', [], []] ! 9 \<noteq> []" by simp
  have h3: "list_all is_digit ([largeBytesLog, ''127.0.0.1'', ''user-identifier'', ''frank'',
      ''10/Oct/2000:13:55:36 -0700'', ''GET'', ''/apache_pb.gif'', ''HTTP/1.0'',
      ''200'', ''4294967301'', [], []] ! 9)" using d by simp
  have h4: "decimal_value ([largeBytesLog, ''127.0.0.1'', ''user-identifier'', ''frank'',
      ''10/Oct/2000:13:55:36 -0700'', ''GET'', ''/apache_pb.gif'', ''HTTP/1.0'',
      ''200'', ''4294967301'', [], []] ! 9) < 2 ^ 64" using v by simp
  from parseLog_bytes_sent_truncated [OF FindStringSubmatch_largeBytesLog h2 h3 h4] d v
  show ?thesis
    by (simp add: FindStringSubmatch_largeBytesLog parseLog_largeBytesLog)
qed

text \<open>
  C2. The combined-format test line is parsed without a diagnostic into the record
  with IP \<^verbatim>\<open>127.0.0.1\<close>, route \<^verbatim>\<open>/apache_pb.gif\<close>, parameters
  \<^verbatim>\<open>param1=test\<close>, response code 200, bytes sent 2326 and UTC timestamp
  \<^verbatim>\<open>2000-10-10T20:55:36Z\<close>.
\<close>

theorem parseLog_validCombinedLog_fields:
  "parseLog validCombinedLog = ([], Inr \<lparr>IP = ''127.0.0.1'', Identity = ''user-identifier'',
     User = ''frank'', Time = ''10/Oct/2000:13:55:36 -0700'',
     TimestampUTC = ''2000-10-10T20:55:36Z'', Method = ''GET'', Route = ''/apache_pb.gif'',
     Params = ''param1=test'', ResponseCode = 200, BytesSent = 2326, Referer = ''referrer'',
     Agent = ''agent''\<rparr>)"
  using parseLog_validCombinedLog by (simp add: test_record_def)

subsection \<open>Properties of the orchestration\<close>

lemma validCombinedLog_nonempty: "validCombinedLog \<noteq> []"
  by (simp add: validCombinedLog_def)

lemma ReadAndBatch_failing_file:
  "ReadAndBatch 5000 failing_file = [Send [validCombinedLog], Return (Some ErrorReadingFile)]"
  by (simp add: ReadAndBatch_def makeslice_panics_iff failing_file_def validCombinedLog_nonempty)

text \<open>
  C4. With an input whose scan fails after its first line, there is a schedule in which
  \<^verbatim>\<open>main\<close> returns while a parse routine holds the batch it was handed: the
  batch is never parsed, the insert routine never receives it, and no row is written.
  On a read error \<^verbatim>\<open>main\<close> returns at line 92, before the lines that close
  the channels and wait for the routines.
\<close>

theorem main_returns_before_drained:
  "run_schedule env_ok [Hand 0, ReaderReturns] (init 2 5000 failing_file)
     = Some \<lparr>main_at = Returned, reader_left = [], batchChannel_closed = False,
             workers = [Holding [validCombinedLog], Idle],
             parsedLogChannel_closed = False, insert_routine = Waiting,
             db = writer_init,
             main_log = [Printf ''error while reading from log file and batching: %v''
                           [AReadErr ErrorReadingFile]]\<rparr>
   \<and> \<not> drained \<lparr>main_at = Returned, reader_left = [], batchChannel_closed = False,
             workers = [Holding [validCombinedLog], Idle],
             parsedLogChannel_closed = False, insert_routine = Waiting,
             db = writer_init,
             main_log = [Printf ''error while reading from log file and batching: %v''
                           [AReadErr ErrorReadingFile]]\<rparr>
   \<and> rows writer_init = []"
  by (simp add: init_def ReadAndBatch_failing_file drained_def writer_init_def
      numeral_2_eq_2)

text \<open>Once \<^verbatim>\<open>main\<close> has returned, or has panicked, no goroutine takes a step.\<close>

lemma returned_is_final: "main_at s = Returned \<Longrightarrow> step env a s = None"
  by (cases a)
     (auto simp: running_def
           split: list.splits reader_event.splits option.splits worker.splits inserter.splits)

lemma crashed_is_final: "main_at s = Crashed \<Longrightarrow> step env a s = None"
  by (cases a)
     (auto simp: running_def
           split: list.splits reader_event.splits option.splits worker.splits inserter.splits)

text \<open>
  With a batch size that \<^verbatim>\<open>makeslice\<close> refuses the only step is the panic:
  no batch is read and the process ends.
\<close>

lemma main_panics_example:
  "run_schedule env_ok [ReaderPanics] (init 2 (- 1) failing_file)
     = Some \<lparr>main_at = Crashed, reader_left = [], batchChannel_closed = False,
             workers = [Idle, Idle], parsedLogChannel_closed = False,
             insert_routine = Waiting, db = writer_init, main_log = []\<rparr>"
  by (simp add: init_def ReadAndBatch_def makeslice_panics_iff failing_file_def numeral_2_eq_2)

lemma all_Exited_nth:
  "list_all (\<lambda>w. w = Exited) ws \<Longrightarrow> i < length ws \<Longrightarrow> ws ! i = Exited"
  by (simp add: list_all_length)

lemma orderly_step:
  assumes "orderly s" and "step env a s = Some s'"
  shows "orderly s'"
proof (cases a)
  case (Hand i)
  with assms(2) obtain batch left where l: "reader_left s = Send batch # left"
    and m: "main_at s = Reading"
    and s': "s' = s\<lparr>reader_left := left, workers := (workers s)[i := Holding batch]\<rparr>"
    by (auto split: list.splits reader_event.splits if_splits)
  from assms(1) m l have "last (Send batch # left) = Return None" by (simp add: orderly_def)
  then have "left \<noteq> [] \<and> last left = Return None" by (cases left) auto
  then show ?thesis using m s' by (simp add: orderly_def)
next
  case (Parse i)
  with assms(2) obtain batch where i: "i < length (workers s)" and h: "workers s ! i = Holding batch"
    and m: "main_at s \<noteq> Returned"
    and s': "s' = s\<lparr>workers := (workers s)[i := Sending (snd (parse_batch (int i) batch))]\<rparr>"
    by (auto simp: running_def split: worker.splits if_splits)
  have "main_at s \<noteq> WaitWriter"
  proof
    assume "main_at s = WaitWriter"
    with assms(1) have "list_all (\<lambda>w. w = Exited) (workers s)" by (simp add: orderly_def)
    from all_Exited_nth [OF this i] h show False by simp
  qed
  then show ?thesis using assms(1) m s' by (simp add: orderly_def)
next
  case (Deliver i)
  with assms(2) obtain parsedLogs where i: "i < length (workers s)"
    and h: "workers s ! i = Sending parsedLogs" and m: "main_at s \<noteq> Returned"
    and s': "s' = s\<lparr>workers := (workers s)[i := Idle], insert_routine := Inserting parsedLogs\<rparr>"
    by (auto simp: running_def split: worker.splits if_splits)
  have "main_at s \<noteq> WaitWriter"
  proof
    assume "main_at s = WaitWriter"
    with assms(1) have "list_all (\<lambda>w. w = Exited) (workers s)" by (simp add: orderly_def)
    from all_Exited_nth [OF this i] h show False by simp
  qed
  then show ?thesis using assms(1) m s' by (simp add: orderly_def)
next
  case Insert
  with assms(2) obtain b where m: "main_at s \<noteq> Returned"
    and s': "s' = s\<lparr>insert_routine := Waiting, db := insert_one env b (db s)\<rparr>"
    by (auto simp: running_def split: inserter.splits if_splits)
  then show ?thesis using assms(1) by (simp add: orderly_def)
next
  case ReaderReturns
  with assms(2) have m: "main_at s = Reading" by (auto split: if_splits)
  with assms(1) have last: "last (reader_left s) = Return None" by (simp add: orderly_def)
  from ReaderReturns assms(2) m consider
      err where "reader_left s = [Return (Some err)]"
    | "reader_left s = [Return None]"
        "s' = s\<lparr>main_at := WaitWorkers, reader_left := [], batchChannel_closed := True\<rparr>"
    by (auto split: list.splits reader_event.splits option.splits if_splits)
  then show ?thesis
  proof cases
    case 1
    with last show ?thesis by simp
  next
    case 2
    then show ?thesis by (simp add: orderly_def)
  qed
next
  case ReaderPanics
  with assms(2) have m: "main_at s = Reading" and l: "reader_left s = [PanicMakeslice]"
    by (auto split: if_splits)
  with assms(1) show ?thesis by (simp add: orderly_def)
next
  case (WorkerExits i)
  with assms(2) have i: "i < length (workers s)" and h: "workers s ! i = Idle"
    and m: "main_at s \<noteq> Returned"
    and s': "s' = s\<lparr>workers := (workers s)[i := Exited]\<rparr>"
    by (auto simp: running_def split: if_splits)
  have "main_at s \<noteq> WaitWriter"
  proof
    assume "main_at s = WaitWriter"
    with assms(1) have "list_all (\<lambda>w. w = Exited) (workers s)" by (simp add: orderly_def)
    from all_Exited_nth [OF this i] h show False by simp
  qed
  then show ?thesis using assms(1) m s' by (simp add: orderly_def)
next
  case WorkersDone
  with assms(2) have "list_all (\<lambda>w. w = Exited) (workers s)"
    and "s' = s\<lparr>main_at := WaitWriter, parsedLogChannel_closed := True\<rparr>"
    by (auto split: if_splits)
  then show ?thesis by (simp add: orderly_def)
next
  case InserterExits
  with assms(2) have m: "main_at s \<noteq> Returned" and s': "s' = s\<lparr>insert_routine := Finished\<rparr>"
    by (auto simp: running_def split: if_splits)
  then show ?thesis using assms(1) by (simp add: orderly_def)
next
  case InserterDone
  with assms(2) have m: "main_at s = WaitWriter" and f: "insert_routine s = Finished"
    and s': "s' = s\<lparr>main_at := Returned,
                    main_log := main_log s @ [Println ''log parsing finished'' []]\<rparr>"
    by (auto split: if_splits)
  with assms(1) show ?thesis by (simp add: orderly_def drained_def)
qed

lemma orderly_run:
  "orderly s \<Longrightarrow> run_schedule env sched s = Some s' \<Longrightarrow> orderly s'"
proof (induction sched arbitrary: s)
  case Nil
  then show ?case by simp
next
  case (Cons a sched)
  from Cons.prems(2) obtain s1 where 1: "step env a s = Some s1"
    and 2: "run_schedule env sched s1 = Some s'"
    by (auto split: option.splits)
  from Cons.prems(1) 1 have "orderly s1" by (rule orderly_step)
  from Cons.IH [OF this 2] show ?case .
qed

lemma orderly_init:
  assumes "open_res f = OpenOk" and "\<not> scan_failed f" and "0 \<le> B" and "B \<le> 2 ^ 44"
  shows "orderly (init n B f)"
  using assms
  by (simp add: orderly_def init_def ReadAndBatch_def makeslice_panics_iff Let_def
      split: prod.splits)

text \<open>
  When the read ends without an error, \<^verbatim>\<open>main\<close> returns only from a drained
  pipeline, whatever the schedule.
\<close>

lemma main_returns_drained_without_error:
  assumes "open_res f = OpenOk" and "\<not> scan_failed f" and "0 \<le> B" and "B \<le> 2 ^ 44"
    and "run_schedule env sched (init n B f) = Some s" and "main_at s = Returned"
  shows "drained s"
proof -
  have "orderly (init n B f)" using assms(1,2,3,4) by (rule orderly_init)
  from orderly_run [OF this assms(5)] assms(6) show ?thesis by (simp add: orderly_def)
qed

lemma parse_batch_validCombinedLog: "snd (parse_batch 0 [validCombinedLog]) = [test_record]"
  by (simp add: parse_batch_def parseLog_validCombinedLog)

lemma ReadAndBatch_good_file:
  "ReadAndBatch 5000 good_file = [Send [validCombinedLog], Return None]"
  by (simp add: ReadAndBatch_def makeslice_panics_iff good_file_def validCombinedLog_nonempty)

text \<open>
  A run of the whole pipeline on one line: the line is read, parsed and inserted, and
  \<^verbatim>\<open>main\<close> returns with the row in the store.
\<close>

lemma full_run_example:
  "\<exists>s. run_schedule env_ok
          [Hand 0, ReaderReturns, Parse 0, Deliver 0, Insert, WorkerExits 0, WorkerExits 1,
           WorkersDone, InserterExits, InserterDone]
          (init 2 5000 good_file) = Some s
       \<and> main_at s = Returned \<and> drained s \<and> rows (db s) = [test_record]"
  by (simp add: init_def ReadAndBatch_good_file parse_batch_validCombinedLog drained_def
      writer_init_def numeral_2_eq_2 running_def insert_one_def conn_Begin_def tx_Prepare_def tx_Commit_def
      stmt_Close_def stmt_Exec_def Let_def env_ok_def)

subsection \<open>Properties of getRoutineCount\<close>

lemma round_half_even_exact: "0 < d \<Longrightarrow> round_half_even (q * d) d = q"
  by (simp add: round_half_even_def Let_def)

lemma round_f64_sign:
  assumes "0 \<le> n" and "0 < d"
  shows "(\<exists>m e. round_f64 s n d = Finite s m e \<and> 0 \<le> m) \<or> round_f64 s n d = Infinity s"
proof -
  have rhe: "\<And>a b. 0 \<le> a \<Longrightarrow> 0 < b \<Longrightarrow> 0 \<le> round_half_even a b"
    by (auto simp: round_half_even_def Let_def pos_imp_zdiv_nonneg_iff)
  show ?thesis
    using assms by (auto simp: round_f64_def Let_def intro!: rhe)
qed

text \<open>
  The mantissa of a rounded fraction is below \<open>2\<^sup>5\<^sup>3\<close>: the fraction is below the
  power of two after its exponent, so the rounding of its first 53 bits is at most
  \<open>2\<^sup>5\<^sup>3\<close>, and then the mantissa is \<open>2\<^sup>5\<^sup>2\<close> with the next exponent.
\<close>

lemma round_half_even_le:
  assumes "0 \<le> a" and "0 < b" and "a < b * c"
  shows "round_half_even a b \<le> c"
proof -
  have "0 \<le> a mod b" using assms(2) by simp
  moreover have "b * (a div b) + a mod b = a" by simp
  ultimately have "b * (a div b) \<le> a" by linarith
  with assms(3) have "b * (a div b) < b * c" by linarith
  with assms(2) have "a div b < c" by simp
  then show ?thesis by (simp add: round_half_even_def Let_def)
qed

lemma exponent_of_upper:
  assumes "0 < n" and "0 < d"
  shows "if 0 \<le> exponent_of n d + 1 then n < d * 2 ^ nat (exponent_of n d + 1)
         else n * 2 ^ nat (- (exponent_of n d + 1)) < d"
proof -
  define N where "N = nat (bitlen n)"
  define B where "B = nat (bitlen d)"
  have bn: "1 \<le> bitlen n" using assms(1) by (simp add: bitlen_alt_def)
  have bd: "1 \<le> bitlen d" using assms(2) by (simp add: bitlen_alt_def)
  have Nn: "bitlen n = int N" using bn by (simp add: N_def)
  have Bd: "bitlen d = int B" using bd by (simp add: B_def)
  have B1: "1 \<le> B" using bd by (simp add: B_def)
  have N1: "1 \<le> N" using bn by (simp add: N_def)
  have xB: "nat (bitlen d - 1) = B - 1"
    using bd by (simp add: B_def nat_diff_distrib)
  from bitlen_bounds [OF assms(1)] have nhi: "n < 2 ^ N" by (simp add: N_def)
  from bitlen_bounds [OF assms(2)] have dlo: "2 ^ (B - 1) \<le> d" unfolding xB by simp
  define e0 where "e0 = int N - int B"
  define test where "test \<longleftrightarrow> (if 0 \<le> e0 then d * 2 ^ nat e0 \<le> n else d \<le> n * 2 ^ nat (- e0))"
  have ex: "exponent_of n d = (if test then e0 else e0 - 1)"
    by (simp add: exponent_of_def Let_def Nn Bd e0_def test_def)
  show ?thesis
  proof (cases test)
    case True
    then have E: "exponent_of n d + 1 = e0 + 1" using ex by simp
    show ?thesis
    proof (cases "0 \<le> e0 + 1")
      case pos: True
      then have k: "nat (e0 + 1) + (B - 1) = N" using B1 by (simp add: e0_def)
      have "n < 2 ^ N" by (rule nhi)
      also have "(2::int) ^ N = 2 ^ (B - 1) * 2 ^ nat (e0 + 1)"
        using k by (simp add: power_add [symmetric] add.commute)
      also have "\<dots> \<le> d * 2 ^ nat (e0 + 1)" using dlo by (intro mult_right_mono) simp_all
      finally show ?thesis using pos E by simp
    next
      case neg: False
      then have k: "N + nat (- (e0 + 1)) = B - 1" using B1 by (simp add: e0_def)
      have "n * 2 ^ nat (- (e0 + 1)) < 2 ^ N * 2 ^ nat (- (e0 + 1))"
        using nhi by simp
      also have "\<dots> = (2::int) ^ (B - 1)" using k by (simp add: power_add [symmetric])
      also have "\<dots> \<le> d" by (rule dlo)
      finally show ?thesis using neg E by simp
    qed
  next
    case False
    then have E: "exponent_of n d + 1 = e0" using ex by simp
    from False show ?thesis unfolding E by (auto simp: test_def split: if_splits)
  qed
qed

lemma round_f64_mantissa:
  assumes "0 \<le> n" and "0 < d" and "round_f64 s n d = Finite t m e"
  shows "m < 2 ^ 53"
proof (cases "n = 0")
  case True
  with assms(3) show ?thesis by (simp add: round_f64_def)
next
  case False
  with assms(1) have npos: "0 < n" by simp
  define U where "U = exponent_of n d + 1"
  define qe where "qe = max (exponent_of n d) (- 1022) - 52"
  define M where "M = (if 0 \<le> qe then round_half_even n (d * 2 ^ nat qe)
                  else round_half_even (n * 2 ^ nat (- qe)) d)"
  have up: "if 0 \<le> U then n < d * 2 ^ nat U else n * 2 ^ nat (- U) < d"
    unfolding U_def using npos assms(2) by (rule exponent_of_upper)
  have Uq: "U \<le> qe + 53" by (simp add: U_def qe_def)
  have M53: "M \<le> 2 ^ 53"
  proof (cases "0 \<le> qe")
    case True
    have "n < d * 2 ^ nat qe * 2 ^ 53"
    proof (cases "0 \<le> U")
      case pos: True
      with up have "n < d * 2 ^ nat U" by simp
      also have "\<dots> \<le> d * 2 ^ (nat qe + 53)"
        using assms(2) Uq True pos by (intro mult_left_mono power_increasing) simp_all
      finally show ?thesis by (simp add: power_add)
    next
      case neg: False
      have "n * 1 \<le> n * 2 ^ nat (- U)" using npos by (intro mult_left_mono) simp_all
      also have "\<dots> < d" using up neg by simp
      finally have nd: "n < d" by simp
      have "(1::int) \<le> 2 ^ (nat qe + 53)" by (rule one_le_power) simp
      with assms(2) have "d * 1 \<le> d * 2 ^ (nat qe + 53)" by (intro mult_left_mono) simp_all
      with nd have "n < d * 2 ^ (nat qe + 53)" by simp
      then show ?thesis by (simp add: power_add mult.assoc)
    qed
    then have "round_half_even n (d * 2 ^ nat qe) \<le> 2 ^ 53"
      using assms(1,2) by (intro round_half_even_le) simp_all
    then show ?thesis using True by (simp add: M_def)
  next
    case False
    define t where "t = nat (- qe)"
    have "n * 2 ^ t < d * 2 ^ 53"
    proof (cases "0 \<le> U")
      case pos: True
      with up have "n < d * 2 ^ nat U" by simp
      then have "n * 2 ^ t < d * 2 ^ nat U * 2 ^ t" by simp
      also have "\<dots> = d * 2 ^ (nat U + t)" by (simp add: power_add)
      also have "\<dots> \<le> d * 2 ^ 53"
        using assms(2) Uq False pos by (intro mult_left_mono power_increasing) (simp_all add: t_def)
      finally show ?thesis .
    next
      case neg: False
      define u where "u = nat (- U)"
      have tu: "t \<le> 53 + u" using Uq False neg by (simp add: t_def u_def)
      have "n * 2 ^ t \<le> n * 2 ^ (53 + u)"
        using npos tu by (intro mult_left_mono power_increasing) simp_all
      also have "\<dots> = n * 2 ^ u * 2 ^ 53" by (simp add: power_add)
      also have "\<dots> < d * 2 ^ 53" using up neg by (simp add: u_def)
      finally show ?thesis .
    qed
    then have "round_half_even (n * 2 ^ t) d \<le> 2 ^ 53"
      using assms(1,2) by (intro round_half_even_le) simp_all
    then show ?thesis using False by (simp add: M_def t_def)
  qed
  have R: "round_f64 s n d =
      (if (if M = 2 ^ 53 then qe + 1 else qe) > 971 then Infinity s
       else Finite s (if M = 2 ^ 53 then 2 ^ 52 else M) (if M = 2 ^ 53 then qe + 1 else qe))"
    unfolding round_f64_def M_def qe_def Let_def using False by (simp only: if_False)
  from assms(3) have "m = (if M = 2 ^ 53 then 2 ^ 52 else M)"
    unfolding R by (simp split: if_splits)
  with M53 show ?thesis by (simp split: if_splits)
qed

text \<open>The float of a positive integer below 2^53, from any fraction that writes it.\<close>

lemma pow2_le_lt_exp:
  fixes a b c :: nat
  assumes "(2::int) ^ a \<le> x" and "x < 2 ^ b"
  shows "a < b"
proof -
  from assms have "(2::int) ^ a < 2 ^ b" by (rule le_less_trans)
  then show ?thesis by (rule power_less_imp_less_exp [rotated]) simp
qed

text \<open>
  The exponent of a whole number \<open>j\<close>, written as any fraction \<open>j \<sqdot> D / D\<close>, is
  the position of its leading bit.
\<close>

lemma exponent_of_integer:
  assumes lo: "2 ^ E \<le> j" and hi: "j < 2 ^ (E + 1)" and D: "0 < D"
  shows "exponent_of (j * D) D = int E"
proof -
  define N where "N = nat (bitlen (j * D))"
  define B where "B = nat (bitlen D)"
  have jpos: "0 < j"
  proof -
    have "(0::int) < 2 ^ E" by simp
    with lo show ?thesis by linarith
  qed
  have npos: "0 < j * D" using jpos D by simp
  have bn: "1 \<le> bitlen (j * D)" using npos by (simp add: bitlen_alt_def del: of_int_mult)
  have bd: "1 \<le> bitlen D" using D by (simp add: bitlen_alt_def)
  have Nn: "bitlen (j * D) = int N" using bn by (simp add: N_def)
  have Bd: "bitlen D = int B" using bd by (simp add: B_def)
  have B1: "1 \<le> B" using bd by (simp add: B_def)
  have xN: "nat (bitlen (j * D) - 1) = N - 1" "nat (bitlen (j * D)) = N"
    using bn by (simp_all add: N_def nat_diff_distrib)
  have xB: "nat (bitlen D - 1) = B - 1" "nat (bitlen D) = B"
    using bd by (simp_all add: B_def nat_diff_distrib)
  from bitlen_bounds [OF npos] have nlo: "2 ^ (N - 1) \<le> j * D" and nhi: "j * D < 2 ^ N"
    unfolding xN by simp_all
  from bitlen_bounds [OF D] have dlo: "2 ^ (B - 1) \<le> D" and dhi: "D < 2 ^ B"
    unfolding xB by simp_all
  have "2 ^ E * 2 ^ (B - 1) \<le> j * D"
    using lo dlo jpos D by (intro mult_mono) simp_all
  then have "(2::int) ^ (E + (B - 1)) \<le> j * D" by (simp add: power_add)
  from this nhi have "E + (B - 1) < N" by (rule pow2_le_lt_exp)
  then have ge: "E + B \<le> N" using B1 by simp
  have "j * D < 2 ^ (E + 1) * 2 ^ B"
    using hi dhi jpos D by (intro mult_strict_mono) simp_all
  then have "j * D < (2::int) ^ (E + 1 + B)" by (simp add: power_add)
  from nlo this have "N - 1 < E + 1 + B" by (rule pow2_le_lt_exp)
  then have le: "N \<le> E + 1 + B" by simp
  have e0: "int N - int B = int E \<or> int N - int B = int E + 1" using ge le by auto
  then show ?thesis
  proof
    assume a: "int N - int B = int E"
    have "D * 2 ^ E \<le> j * D" using lo D by simp
    then show ?thesis using a by (simp add: exponent_of_def Nn Bd)
  next
    assume a: "int N - int B = int E + 1"
    have "\<not> D * 2 ^ (E + 1) \<le> j * D" using hi D by simp
    then show ?thesis using a by (simp add: exponent_of_def Nn Bd nat_add_distrib)
  qed
qed

lemma round_f64_integer:
  assumes j: "1 \<le> j" "j < 2 ^ 53" and D: "0 < D"
  shows "round_f64 s (j * D) D = Finite s (j * 2 ^ nat (53 - bitlen j)) (bitlen j - 53)"
proof -
  define E where "E = nat (bitlen j - 1)"
  have jpos: "0 < j" using j by simp
  have bj: "1 \<le> bitlen j" using jpos by (simp add: bitlen_alt_def)
  have Ej: "bitlen j = int E + 1" using bj by (simp add: E_def)
  have xE: "nat (bitlen j - 1) = E" "nat (bitlen j) = E + 1"
    using bj by (simp_all add: E_def)
  from bitlen_bounds [OF jpos] have lo: "2 ^ E \<le> j" and hi: "j < 2 ^ (E + 1)"
    unfolding xE by simp_all
  have E52: "E \<le> 52"
  proof -
    from lo j(2) have "E < 53" by (rule pow2_le_lt_exp)
    then show ?thesis by simp
  qed
  have ex: "exponent_of (j * D) D = int E" using lo hi D by (rule exponent_of_integer)
  have n0: "j * D \<noteq> 0" using jpos D by simp
  have small: "j * 2 ^ (52 - E) < 2 ^ 53"
  proof -
    have "j * 2 ^ (52 - E) < 2 ^ (E + 1) * 2 ^ (52 - E)" using hi by simp
    also have "\<dots> = (2::int) ^ (E + 1 + (52 - E))" by (simp only: power_add)
    also have "E + 1 + (52 - E) = 53" using E52 by simp
    finally show ?thesis .
  qed
  show ?thesis
  proof (cases "E = 52")
    case True
    have m: "round_half_even (j * D) (D * 2 ^ nat 0) = j"
      using round_half_even_exact [OF D, of j] by simp
    have "round_f64 s (j * D) D = Finite s j 0"
      unfolding round_f64_def using n0 j(2) m
      by (simp add: Let_def ex True)
    then show ?thesis using True by (simp add: Ej)
  next
    case False
    with E52 have E51: "E < 52" by simp
    have qe: "max (int E) (- 1022) - 52 = int E - 52" by simp
    have neg: "\<not> 0 \<le> int E - 52" using E51 by simp
    have k: "nat (52 - int E) = 52 - E" using E51 by simp
    have m: "round_half_even (j * D * 2 ^ (52 - E)) D = j * 2 ^ (52 - E)"
      using round_half_even_exact [OF D, of "j * 2 ^ (52 - E)"] by (simp add: mult_ac)
    have "round_f64 s (j * D) D = Finite s (j * 2 ^ (52 - E)) (int E - 52)"
      unfolding round_f64_def using n0 small m
      using E51 by (simp add: Let_def ex k)
    moreover have "nat (53 - bitlen j) = 52 - E" using E51 by (simp add: Ej)
    ultimately show ?thesis by (simp add: Ej)
  qed
qed

text \<open>The float of an even number from \<open>2\<^sup>5\<^sup>3\<close> to below \<open>2\<^sup>5\<^sup>4\<close>.\<close>

lemma round_f64_even:
  assumes j: "2 ^ 52 \<le> j" "j < 2 ^ 53" and D: "0 < D"
  shows "round_f64 s (2 * j * D) D = Finite s j 1"
proof -
  have lo: "2 ^ 53 \<le> 2 * j" using j(1) by simp
  have hi: "2 * j < 2 ^ (53 + 1)" using j(2) by simp
  have ex: "exponent_of (2 * j * D) D = 53"
    using exponent_of_integer [OF lo hi D] by simp
  have n0: "2 * j * D \<noteq> 0" using j(1) D by simp
  have "round_half_even (j * (D * 2)) (D * 2) = j"
    using D by (intro round_half_even_exact) simp
  then have m: "round_half_even (2 * j * D) (D * 2 ^ nat 1) = j" by (simp add: mult_ac)
  show ?thesis
    unfolding round_f64_def using n0 j(2) m by (simp add: Let_def ex)
qed

lemma one_f64: "f64_of_int 1 = Finite False 4503599627370496 (- 52)"
  by code_simp

lemma two_f64: "reservedRoutines = Finite False 4503599627370496 (- 51)"
  by code_simp

lemma numer_nonneg: "0 \<le> m \<Longrightarrow> 0 \<le> numer m e"
  by (simp add: numer_def)

lemma denom_pos: "0 < denom e"
  by (simp add: denom_def)

lemma nonneg_round: "0 \<le> n \<Longrightarrow> 0 < d \<Longrightarrow> nonneg (round_f64 s n d)"
  using round_f64_sign [of n d s] by auto

lemma nonneg_of_int: "nonneg (f64_of_int n)"
  by (simp add: f64_of_int_def nonneg_round)

lemma nonneg_fmul: "nonneg x \<Longrightarrow> nonneg y \<Longrightarrow> nonneg (fmul x y)"
  by (induction x y rule: fmul.induct)
     (auto intro!: nonneg_round numer_nonneg denom_pos)

lemma numer_pos: "0 < m \<Longrightarrow> 0 < numer m e"
  by (simp add: numer_def)

lemma nonneg_fdiv: "nonneg x \<Longrightarrow> nonneg y \<Longrightarrow> nonneg (fdiv x y)"
proof (induction x y rule: fdiv.induct)
  case (6 s m1 e1 t m2 e2)
  show ?case
  proof (cases "m2 = 0")
    case True
    then show ?thesis by simp
  next
    case False
    with 6 have "0 < m2" "0 \<le> m1" by simp_all
    then have "0 \<le> numer m1 e1 * denom e2" "0 < denom e1 * numer m2 e2"
      by (simp_all add: numer_nonneg numer_pos denom_pos less_imp_le)
    then show ?thesis using False by (simp add: nonneg_round)
  qed
qed simp_all

lemma valid_nonneg: "valid_f64 x \<Longrightarrow> nonneg x"
  by (cases x) simp_all

lemma nonneg_quotient: "valid_f64 (AverageLogSizeMB cfg) \<Longrightarrow> nonneg (quotient cfg)"
  unfolding quotient_def
  by (intro nonneg_fdiv nonneg_fmul nonneg_of_int valid_nonneg)

lemma fdiv_mantissa:
  assumes "nonneg x" and "nonneg y" and "fdiv x y = Finite s m e"
  shows "m < 2 ^ 53"
  using assms
proof (induction x y rule: fdiv.induct)
  case (6 s1 m1 e1 t m2 e2)
  show ?case
  proof (cases "m2 = 0")
    case True
    with 6(3) show ?thesis by (simp split: if_splits)
  next
    case False
    with 6 have "0 < m2" "0 \<le> m1" by simp_all
    then have n: "0 \<le> numer m1 e1 * denom e2" and d: "0 < denom e1 * numer m2 e2"
      by (simp_all add: numer_nonneg numer_pos denom_pos less_imp_le)
    from 6(3) False
    have "round_f64 (s1 \<noteq> t) (numer m1 e1 * denom e2) (denom e1 * numer m2 e2) = Finite s m e"
      by simp
    with n d show ?thesis by (rule round_f64_mantissa)
  qed
qed simp_all

lemma quotient_mantissa:
  assumes "valid_f64 (AverageLogSizeMB cfg)" and "quotient cfg = Finite s m e"
  shows "m < 2 ^ 53"
proof -
  have "nonneg (f64_of_int (sint (MaxMemoryUsageMB cfg)))" by (rule nonneg_of_int)
  moreover have "nonneg (fmul (AverageLogSizeMB cfg) (f64_of_int (sint (BatchSize cfg))))"
    using assms(1) by (intro nonneg_fmul nonneg_of_int valid_nonneg)
  ultimately show ?thesis using assms(2) unfolding quotient_def by (rule fdiv_mantissa)
qed

lemma neg_form_round: "0 \<le> n \<Longrightarrow> 0 < d \<Longrightarrow> neg_form (round_f64 True n d)"
  using round_f64_sign [of n d True] by (auto simp: neg_form_def)

lemma Max_one_neg_form:
  assumes "neg_form x"
  shows "Max_f64 (Finite False 4503599627370496 (- 52)) x = Finite False 4503599627370496 (- 52)"
proof -
  from assms consider "x = Infinity True" | m e where "x = Finite True m e" "0 \<le> m"
    by (auto simp: neg_form_def)
  then show ?thesis
  proof cases
    case 1
    then show ?thesis by (simp add: Max_f64_def)
  next
    case 2
    have "0 < (4503599627370496::int) * 2 ^ nat (- 52 - min (- 52) e)" by simp
    moreover have "- m * 2 ^ nat (e - min (- 52) e) \<le> 0"
      using 2(2) by (simp add: mult_le_0_iff)
    ultimately have "- m * 2 ^ nat (e - min (- 52) e)
                       < 4503599627370496 * 2 ^ nat (- 52 - min (- 52) e)"
      by (rule le_less_trans [rotated])
    then show ?thesis using 2 by (simp add: Max_f64_def)
  qed
qed

lemma Max_one_zero:
  "Max_f64 (Finite False 4503599627370496 (- 52)) (Finite False 0 (- 1074)) = Finite False 4503599627370496 (- 52)"
  by (simp add: Max_f64_def)

lemma int_of_one: "int_of_f64 p (Finite False 4503599627370496 (- 52)) = 1"
  by (simp add: int_of_f64_def)

lemma fsub_two_neg_form:
  assumes "neg_form y"
  shows "neg_form (fsub y (Finite False 4503599627370496 (- 51)))"
proof -
  from assms consider "y = Infinity True" | m e where "y = Finite True m e" "0 \<le> m"
    by (auto simp: neg_form_def)
  then show ?thesis
  proof cases
    case 1
    then show ?thesis by (simp add: neg_form_def)
  next
    case 2
    let ?a = "- 1 * numer m e * denom (- 51)"
    let ?b = "1 * numer 4503599627370496 (- 51) * denom e"
    have a: "?a \<le> 0" using numer_nonneg [OF 2(2), of e] by (simp add: denom_def mult_le_0_iff)
    have b: "0 < ?b" using denom_pos [of e] by (simp add: numer_def)
    from a b have lt: "?a - ?b < 0" by linarith
    have d: "0 < denom e * denom (- 51)" using denom_pos [of e] by (simp add: denom_def)
    have "fsub y (Finite False 4503599627370496 (- 51)) = round_f64 True \<bar>?a - ?b\<bar> (denom e * denom (- 51))"
      using lt 2(1) by (simp add: Let_def del: mult_minus1 mult_minus1_right)
    moreover have "neg_form (round_f64 True \<bar>?a - ?b\<bar> (denom e * denom (- 51)))"
      using d by (intro neg_form_round) simp_all
    ultimately show ?thesis by simp
  qed
qed

lemma Floor_neg_form:
  assumes "0 \<le> m"
  shows "neg_form (Floor (Finite True m e))"
proof (cases "0 \<le> e")
  case True
  then show ?thesis using assms by (simp add: neg_form_def)
next
  case False
  have k: "0 \<le> m div 2 ^ nat (- e)" using assms by (simp add: pos_imp_zdiv_nonneg_iff)
  then have k1: "0 \<le> m div 2 ^ nat (- e) + 1" by simp
  show ?thesis using False k k1 by (simp add: Let_def neg_form_round)
qed

lemma floor_of_neg: "0 \<le> m \<Longrightarrow> floor_of (Finite True m e) \<le> 0"
  by (auto simp: mult_le_0_iff neg_imp_zdiv_nonneg_iff div_nonpos_pos_le0 intro: div_nonpos_pos_le0)

lemma bitlen_small:
  assumes "1 \<le> j" and "j < 2 ^ 53"
  shows "1 \<le> bitlen j \<and> bitlen j \<le> 53"
proof -
  have jpos: "0 < j" using assms by simp
  have b1: "1 \<le> bitlen j" using jpos by (simp add: bitlen_alt_def)
  from bitlen_bounds [OF jpos] have "2 ^ nat (bitlen j - 1) \<le> j" by simp
  from this assms(2) have "nat (bitlen j - 1) < 53" by (rule pow2_le_lt_exp)
  with b1 show ?thesis by simp
qed

lemma Floor_pos:
  assumes "0 \<le> m" and "floor_of (Finite False m e) < 2 ^ 53"
  shows "\<exists>mf ef. Floor (Finite False m e) = Finite False mf ef \<and> 0 \<le> mf
           \<and> numer mf ef = floor_of (Finite False m e) * denom ef"
proof (cases "0 \<le> e")
  case True
  then show ?thesis using assms by (simp add: numer_def denom_def)
next
  case False
  define k where "k = m div 2 ^ nat (- e)"
  have fl: "floor_of (Finite False m e) = k" using False by (simp add: k_def)
  have F: "Floor (Finite False m e) = round_f64 False k 1"
    using False by (simp add: k_def Let_def)
  have k0: "0 \<le> k" using assms(1) by (simp add: k_def pos_imp_zdiv_nonneg_iff)
  show ?thesis
  proof (cases "k = 0")
    case True
    then show ?thesis using F fl by (simp add: round_f64_def numer_def)
  next
    case nz: False
    with k0 have k1: "1 \<le> k" by simp
    have k53: "k < 2 ^ 53" using assms(2) fl by simp
    from bitlen_small [OF k1 k53] have b: "1 \<le> bitlen k" "bitlen k \<le> 53" by simp_all
    have R: "round_f64 False k 1 = Finite False (k * 2 ^ nat (53 - bitlen k)) (bitlen k - 53)"
      using round_f64_integer [OF k1 k53, of 1 False] by simp
    have n: "numer (k * 2 ^ nat (53 - bitlen k)) (bitlen k - 53) = k * denom (bitlen k - 53)"
    proof (cases "bitlen k = 53")
      case True
      then show ?thesis by (simp add: numer_def denom_def)
    next
      case False
      with b have "bitlen k - 53 < 0" by simp
      moreover have "nat (- (bitlen k - 53)) = nat (53 - bitlen k)" by simp
      ultimately show ?thesis by (simp add: numer_def denom_def)
    qed
    have "0 \<le> k * 2 ^ nat (53 - bitlen k)" using k0 by simp
    with F R n fl show ?thesis by simp
  qed
qed

lemma fsub_two_pos:
  assumes "numer mf ef = k * denom ef"
  shows "fsub (Finite False mf ef) (Finite False 4503599627370496 (- 51))
           = (if k = 2 then Finite False 0 (- 1074)
              else round_f64 (k < 2) (\<bar>k - 2\<bar> * (denom ef * 2 ^ 51)) (denom ef * 2 ^ 51))"
proof -
  define D where "D = denom ef * 2 ^ 51"
  define A where "A = (if False then - 1 else 1) * numer mf ef * denom (- 51)"
  define B where "B = (if False then - 1 else 1) * numer 4503599627370496 (- 51) * denom ef"
  define Dd where "Dd = denom ef * denom (- 51)"
  have Dpos: "0 < D" using denom_pos [of ef] by (simp add: D_def)
  have eq: "fsub (Finite False mf ef) (Finite False 4503599627370496 (- 51))
          = (if A - B = 0 then Finite (False \<and> \<not> False) 0 (- 1074)
             else round_f64 (A - B < 0) \<bar>A - B\<bar> Dd)"
    unfolding A_def B_def Dd_def by (simp only: fsub.simps Let_def)
  have a: "A = k * D" using assms by (simp add: A_def D_def denom_def)
  have b: "B = 2 * D" by (simp add: B_def D_def numer_def)
  have d: "Dd = D" by (simp add: Dd_def D_def denom_def)
  have diff: "A - B = (k - 2) * D" unfolding a b by (simp add: algebra_simps)
  have z: "(k - 2) * D = 0 \<longleftrightarrow> k = 2" using Dpos by simp
  have l: "(k - 2) * D < 0 \<longleftrightarrow> k < 2" using Dpos by (simp add: mult_less_0_iff)
  have ab: "\<bar>(k - 2) * D\<bar> = \<bar>k - 2\<bar> * D" using Dpos by (simp add: abs_mult)
  show ?thesis unfolding eq diff d z l ab unfolding D_def by simp
qed

lemma Max_one_integer:
  assumes "1 \<le> j" and "j < 2 ^ 53"
  shows "Max_f64 (Finite False 4503599627370496 (- 52))
           (Finite False (j * 2 ^ nat (53 - bitlen j)) (bitlen j - 53))
         = Finite False (j * 2 ^ nat (53 - bitlen j)) (bitlen j - 53)"
proof -
  from bitlen_small [OF assms] have b: "1 \<le> bitlen j" "bitlen j \<le> 53" by simp_all
  have mn: "min (- 52) (bitlen j - 53) = - 52" using b by simp
  have e: "nat (bitlen j - 53 - - 52) = nat (bitlen j - 1)" by simp
  have "nat (53 - bitlen j) + nat (bitlen j - 1) = 52" using b by simp
  then have P: "(2::int) ^ nat (53 - bitlen j) * 2 ^ nat (bitlen j - 1) = 4503599627370496"
    by (simp add: power_add [symmetric])
  have "j * 2 ^ nat (53 - bitlen j) * 2 ^ nat (bitlen j - 1) = j * 4503599627370496"
    by (simp only: mult.assoc P)
  then have ge: "\<not> j * 2 ^ nat (53 - bitlen j) * 2 ^ nat (bitlen j - 1) < 4503599627370496"
    using assms(1) by linarith
  have nz: "j * 2 ^ nat (53 - bitlen j) \<noteq> 0" using assms(1) by simp
  show ?thesis
    unfolding Max_f64_def using ge nz by (simp add: mn e)
qed

lemma Max_one_even:
  assumes "2 ^ 52 \<le> j"
  shows "Max_f64 (Finite False 4503599627370496 (- 52)) (Finite False j 1) = Finite False j 1"
proof -
  have "\<not> j * 2 ^ 53 < 4503599627370496" using assms by simp
  moreover have "j \<noteq> 0" using assms by auto
  ultimately show ?thesis unfolding Max_f64_def by simp
qed

lemma int_of_integer:
  assumes "1 \<le> j" and "j < 2 ^ 53"
  shows "int_of_f64 p (Finite False (j * 2 ^ nat (53 - bitlen j)) (bitlen j - 53)) = j"
proof -
  from bitlen_small [OF assms] have b: "1 \<le> bitlen j" "bitlen j \<le> 53" by simp_all
  have t: "(if 0 \<le> bitlen j - 53 then j * 2 ^ nat (53 - bitlen j) * 2 ^ nat (bitlen j - 53)
            else j * 2 ^ nat (53 - bitlen j) div 2 ^ nat (- (bitlen j - 53))) = j"
  proof (cases "bitlen j = 53")
    case True
    then show ?thesis by simp
  next
    case False
    with b have "\<not> 0 \<le> bitlen j - 53" by simp
    moreover have "nat (- (bitlen j - 53)) = nat (53 - bitlen j)" by simp
    ultimately show ?thesis by simp
  qed
  have r: "- (2 ^ 63) \<le> j \<and> j < 2 ^ 63" using assms by simp
  show ?thesis unfolding int_of_f64_def trunc_f64.simps Let_def t using r by simp
qed

lemma int_of_even:
  assumes "2 ^ 52 \<le> j" and "j < 2 ^ 53"
  shows "int_of_f64 p (Finite False j 1) = 2 * j"
  using assms by (simp add: int_of_f64_def Let_def)

text \<open>
  The conversion after the floor, the subtraction and the maximum, from the quotient:
  first for a quotient below \<open>2\<^sup>5\<^sup>3\<close>, then from \<open>2\<^sup>5\<^sup>3\<close> to \<open>2\<^sup>5\<^sup>4\<close>, where
  the quotient and the difference are even numbers.
\<close>

lemma routines_exact:
  assumes "0 \<le> m" and "floor_of (Finite s m e) < 2 ^ 53"
  shows "int_of_f64 p (Max_f64 (f64_of_int 1) (fsub (Floor (Finite s m e)) reservedRoutines))
           = max 1 (floor_of (Finite s m e) - 2)"
proof (cases s)
  case True
  have "neg_form (fsub (Floor (Finite True m e)) (Finite False 4503599627370496 (- 51)))"
    using assms(1) by (intro fsub_two_neg_form Floor_neg_form)
  then have "Max_f64 (Finite False 4503599627370496 (- 52))
               (fsub (Floor (Finite True m e)) (Finite False 4503599627370496 (- 51)))
             = Finite False 4503599627370496 (- 52)" by (rule Max_one_neg_form)
  moreover have "floor_of (Finite True m e) \<le> 0" using assms(1) by (rule floor_of_neg)
  ultimately show ?thesis
    unfolding one_f64 two_f64 using True by (simp add: int_of_one del: floor_of.simps Floor.simps)
next
  case False
  then have sF: "s = False" by simp
  note a2 = assms(2) [unfolded sF]
  define k where "k = floor_of (Finite False m e)"
  from Floor_pos [OF assms(1) a2] obtain mf ef where
    F: "Floor (Finite False m e) = Finite False mf ef" and mf: "0 \<le> mf"
    and n: "numer mf ef = k * denom ef" unfolding k_def by blast
  define D where "D = denom ef * 2 ^ 51"
  have Dpos: "0 < D" using denom_pos [of ef] by (simp add: D_def)
  have k53: "k < 2 ^ 53" using a2 unfolding k_def .
  note sub = fsub_two_pos [OF n]
  consider "k < 2" | "k = 2" | "2 < k" by linarith
  then have "int_of_f64 p (Max_f64 (Finite False 4503599627370496 (- 52))
               (fsub (Finite False mf ef) (Finite False 4503599627370496 (- 51)))) = max 1 (k - 2)"
  proof cases
    case 1
    have "neg_form (round_f64 True (\<bar>k - 2\<bar> * D) D)"
      using Dpos by (intro neg_form_round) simp_all
    then have "Max_f64 (Finite False 4503599627370496 (- 52)) (round_f64 True (\<bar>k - 2\<bar> * D) D)
                 = Finite False 4503599627370496 (- 52)" by (rule Max_one_neg_form)
    then show ?thesis using 1 sub by (simp add: D_def int_of_one)
  next
    case 2
    then show ?thesis using sub by (simp add: Max_one_zero int_of_one)
  next
    case 3
    then have j: "1 \<le> k - 2" "k - 2 < 2 ^ 53" using k53 by simp_all
    have "round_f64 False ((k - 2) * D) D
            = Finite False ((k - 2) * 2 ^ nat (53 - bitlen (k - 2))) (bitlen (k - 2) - 53)"
      using j Dpos by (rule round_f64_integer)
    then have "fsub (Finite False mf ef) (Finite False 4503599627370496 (- 51))
            = Finite False ((k - 2) * 2 ^ nat (53 - bitlen (k - 2))) (bitlen (k - 2) - 53)"
      using 3 sub by (simp add: D_def)
    then show ?thesis
      using Max_one_integer [OF j] int_of_integer [OF j, of p] 3 by simp
  qed
  then show ?thesis unfolding sF one_f64 two_f64 F k_def .
qed

lemma routines_exact_large:
  assumes m: "0 \<le> m" "m < 2 ^ 53"
    and lo: "2 ^ 53 \<le> floor_of (Finite False m e)"
    and hi: "floor_of (Finite False m e) \<le> 2 ^ 54"
  shows "int_of_f64 p (Max_f64 (f64_of_int 1) (fsub (Floor (Finite False m e)) reservedRoutines))
           = max 1 (floor_of (Finite False m e) - 2)"
proof -
  define k where "k = floor_of (Finite False m e)"
  have e1: "1 \<le> e"
  proof (rule ccontr)
    assume "\<not> 1 \<le> e"
    then consider "e = 0" | "e < 0" by linarith
    then have "k \<le> m"
    proof cases
      case 1
      then show ?thesis by (simp add: k_def)
    next
      case 2
      have "m div 2 ^ nat (- e) \<le> m div 1" using m(1) by (rule zdiv_mono2) simp_all
      then have "m div 2 ^ nat (- e) \<le> m" by simp
      with 2 show ?thesis by (simp add: k_def)
    qed
    with m(2) lo show False by (simp add: k_def)
  qed
  define h where "h = m * 2 ^ (nat e - 1)"
  have ne: "nat e = Suc (nat e - 1)" using e1 by simp
  have km: "k = m * 2 ^ nat e" using e1 by (simp add: k_def)
  have "(2::int) ^ nat e = 2 * 2 ^ (nat e - 1)" by (subst ne) simp
  then have kh: "k = 2 * h" unfolding km h_def by simp
  have F: "Floor (Finite False m e) = Finite False m e" using e1 by simp
  have n: "numer m e = k * denom e" using e1 by (simp add: numer_def denom_def km)
  have de: "denom e = 1" using e1 by (simp add: denom_def)
  define D :: int where "D = 2 ^ 51"
  have Dpos: "0 < D" by (simp add: D_def)
  have k2: "k \<noteq> 2" "\<not> k < 2" using lo by (simp_all add: k_def)
  have sub: "fsub (Finite False m e) (Finite False 4503599627370496 (- 51))
               = round_f64 False ((k - 2) * D) D"
    using fsub_two_pos [OF n] k2 by (simp add: de D_def)
  have k54: "k \<le> 2 ^ 54" using hi by (simp add: k_def)
  have k53: "2 ^ 53 \<le> k" using lo by (simp add: k_def)
  have "int_of_f64 p (Max_f64 (Finite False 4503599627370496 (- 52))
               (fsub (Finite False m e) (Finite False 4503599627370496 (- 51)))) = max 1 (k - 2)"
  proof (cases "k = 2 ^ 53")
    case True
    then have j: "1 \<le> k - 2" "k - 2 < 2 ^ 53" by simp_all
    have "round_f64 False ((k - 2) * D) D
            = Finite False ((k - 2) * 2 ^ nat (53 - bitlen (k - 2))) (bitlen (k - 2) - 53)"
      using j Dpos by (rule round_f64_integer)
    then have "fsub (Finite False m e) (Finite False 4503599627370496 (- 51))
            = Finite False ((k - 2) * 2 ^ nat (53 - bitlen (k - 2))) (bitlen (k - 2) - 53)"
      using sub by simp
    then show ?thesis
      using Max_one_integer [OF j] int_of_integer [OF j, of p] j(1) by simp
  next
    case False
    with k53 kh have h: "2 ^ 52 < h" by simp
    from k54 kh have h53: "h \<le> 2 ^ 53" by simp
    define j where "j = h - 1"
    have j: "2 ^ 52 \<le> j" "j < 2 ^ 53" using h h53 by (simp_all add: j_def)
    have kj: "k - 2 = 2 * j" by (simp add: kh j_def)
    have "round_f64 False (2 * j * D) D = Finite False j 1" using j Dpos by (rule round_f64_even)
    then have "fsub (Finite False m e) (Finite False 4503599627370496 (- 51)) = Finite False j 1"
      using sub kj by simp
    moreover have "1 \<le> 2 * j" using j(1) by simp
    ultimately show ?thesis
      using Max_one_even [OF j(1)] int_of_even [OF j, of p] kj by simp
  qed
  then show ?thesis unfolding one_f64 two_f64 F k_def .
qed

lemma routines_exact_54:
  assumes "0 \<le> m" and "m < 2 ^ 53" and "floor_of (Finite s m e) \<le> 2 ^ 54"
  shows "int_of_f64 p (Max_f64 (f64_of_int 1) (fsub (Floor (Finite s m e)) reservedRoutines))
           = max 1 (floor_of (Finite s m e) - 2)"
proof (cases "floor_of (Finite s m e) < 2 ^ 53")
  case True
  with assms(1) show ?thesis by (rule routines_exact)
next
  case False
  then have lo: "2 ^ 53 \<le> floor_of (Finite s m e)" by simp
  have "\<not> s"
  proof
    assume s
    then have "floor_of (Finite s m e) \<le> 0" using assms(1) floor_of_neg [of m e] by simp
    with lo show False by simp
  qed
  then have sF: "s = False" by simp
  show ?thesis
    using assms(1,2) lo [unfolded sF] assms(3) [unfolded sF] unfolding sF
    by (rule routines_exact_large)
qed

lemma nonneg_fsub: "nonneg (fsub x y)"
proof (induction x y rule: fsub.induct)
  case (6 s m1 e1 t m2 e2)
  have "0 < denom e1 * denom e2" using denom_pos [of e1] denom_pos [of e2] by simp
  then show ?case by (simp add: Let_def nonneg_round)
qed simp_all

lemma trunc_Max_one:
  assumes "nonneg x"
    and "trunc_f64 (Max_f64 (Finite False 4503599627370496 (- 52)) x) = Some v"
  shows "1 \<le> v"
proof (cases x)
  case NaN
  with assms(2) show ?thesis by (simp add: Max_f64_def)
next
  case (Infinity t)
  with assms(2) show ?thesis by (cases t) (simp_all add: Max_f64_def)
next
  case (Finite s m e)
  with assms(1) have m: "0 \<le> m" by simp
  show ?thesis
  proof (cases "f64_gt (Finite False 4503599627370496 (- 52)) x")
    case True
    then have "Max_f64 (Finite False 4503599627370496 (- 52)) x
                 = Finite False 4503599627370496 (- 52)"
      using Finite by (simp add: Max_f64_def)
    with assms(2) show ?thesis by simp
  next
    case False
    then have mx: "Max_f64 (Finite False 4503599627370496 (- 52)) x = x"
      using Finite by (simp add: Max_f64_def)
    define lo where "lo = min (- 52) e"
    from False Finite have key:
      "4503599627370496 * 2 ^ nat (- 52 - lo) \<le> (if s then - 1 else 1) * m * 2 ^ nat (e - lo)"
      by (simp add: lo_def)
    have pos: "0 < (4503599627370496::int) * 2 ^ nat (- 52 - lo)" by simp
    have sF: "\<not> s"
    proof
      assume s
      with key have "4503599627370496 * 2 ^ nat (- 52 - lo) \<le> - (m * 2 ^ nat (e - lo))" by simp
      moreover have "0 \<le> m * 2 ^ nat (e - lo)" using m by simp
      ultimately show False using pos by linarith
    qed
    with key have key': "4503599627370496 * 2 ^ nat (- 52 - lo) \<le> m * 2 ^ nat (e - lo)" by simp
    have mpos: "0 < m"
    proof (rule ccontr)
      assume "\<not> 0 < m"
      with m have "m = 0" by simp
      with key' pos show False by simp
    qed
    show ?thesis
    proof (cases "0 \<le> e")
      case True
      have "0 < m * 2 ^ nat e" using mpos by simp
      then have "1 \<le> m * 2 ^ nat e" by linarith
      moreover from assms(2) mx Finite sF True have "v = m * 2 ^ nat e"
        by (simp add: Let_def split: if_splits)
      ultimately show ?thesis by simp
    next
      case neg: False
      have big: "2 ^ nat (- e) \<le> m"
      proof (cases "- 52 \<le> e")
        case True
        then have lo: "lo = - 52" by (simp add: lo_def)
        have "nat (e - - 52) + nat (- e) = 52" using True neg by simp
        then have "(2::int) ^ nat (e - - 52) * 2 ^ nat (- e) = 4503599627370496"
          by (simp add: power_add [symmetric])
        then have "2 ^ nat (- e) * (2::int) ^ nat (e - - 52) \<le> m * 2 ^ nat (e - - 52)"
          using key' lo by (simp add: mult.commute)
        then show ?thesis by simp
      next
        case False
        then have lo: "lo = e" by (simp add: lo_def)
        have "52 + nat (- 52 - e) = nat (- e)" using False by simp
        then have "(2::int) ^ nat (- e) = 2 ^ (52 + nat (- 52 - e))" by simp
        also have "\<dots> = 2 ^ 52 * 2 ^ nat (- 52 - e)" by (simp only: power_add)
        finally have "(2::int) ^ nat (- e) = 4503599627370496 * 2 ^ nat (- 52 - e)" by simp
        with key' lo show ?thesis by simp
      qed
      then have "1 \<le> m div 2 ^ nat (- e)"
        by (simp add: pos_imp_zdiv_pos_iff int_one_le_iff_zero_less)
      moreover from assms(2) mx Finite sF neg have "v = m div 2 ^ nat (- e)"
        by (simp add: Let_def split: if_splits)
      ultimately show ?thesis by simp
    qed
  qed
qed

lemma getRoutineCount_exact:
  assumes "valid_f64 (AverageLogSizeMB cfg)" and "quotient cfg = Finite s m e"
    and "floor_of (quotient cfg) \<le> 2 ^ 54"
  shows "getRoutineCount p cfg = max 1 (floor_of (quotient cfg) - 2)"
proof -
  have "nonneg (quotient cfg)" using assms(1) by (rule nonneg_quotient)
  then have m: "0 \<le> m" using assms(2) by simp
  have m53: "m < 2 ^ 53" using assms(1,2) by (rule quotient_mantissa)
  have f: "floor_of (Finite s m e) \<le> 2 ^ 54" using assms(2,3) by simp
  show ?thesis
    unfolding getRoutineCount_def routines_f64_def assms(2)
    using m m53 f by (rule routines_exact_54)
qed

lemma valid_test_config: "valid_f64 (AverageLogSizeMB test_config)"
  by code_simp

lemma quotient_test_config: "quotient test_config = Finite False 5629499534213120 (- 48)"
  by code_simp

lemma getRoutineCount_test_config: "getRoutineCount p test_config = 18"
  by code_simp

lemma workerCount_spec_quotient:
  assumes "workerCount_spec (sint (MaxMemoryUsageMB cfg)) (AverageLogSizeMB cfg)
             (sint (BatchSize cfg)) = Some k"
  shows "\<exists>s m e. quotient cfg = Finite s m e \<and> k = max 1 (floor_of (Finite s m e) - 2)"
proof (cases "quotient cfg")
  case (Finite s m e)
  with assms have "k = max 1 (floor_of (Finite s m e) - 2)"
    by (simp add: workerCount_spec_def quotient_def reserved_def del: floor_of.simps)
  with Finite show ?thesis by blast
next
  case (Infinity s)
  with assms show ?thesis by (simp add: workerCount_spec_def quotient_def)
next
  case NaN
  with assms show ?thesis by (simp add: workerCount_spec_def quotient_def)
qed

lemma getRoutineCount_workerCount_spec:
  assumes "valid_f64 (AverageLogSizeMB cfg)"
    and "workerCount_spec (sint (MaxMemoryUsageMB cfg)) (AverageLogSizeMB cfg)
           (sint (BatchSize cfg)) = Some k"
    and "k \<le> 2 ^ 54 - 2"
  shows "getRoutineCount p cfg = k"
proof -
  from workerCount_spec_quotient [OF assms(2)] obtain s m e
    where q: "quotient cfg = Finite s m e" and k: "k = max 1 (floor_of (Finite s m e) - 2)"
    by blast
  from k assms(3) have "floor_of (Finite s m e) \<le> 2 ^ 54" by simp
  then have "floor_of (quotient cfg) \<le> 2 ^ 54" using q by simp
  from getRoutineCount_exact [OF assms(1) q this, of p] q k show ?thesis by simp
qed

lemma workerCount_spec_test_config:
  "workerCount_spec 100 (round_f64 False 1 1000) 5000 = Some 18"
  by code_simp

lemma valid_tenth_config: "valid_f64 (AverageLogSizeMB tenth_config)"
  by code_simp

lemma workerCount_spec_tenth_config:
  "workerCount_spec (sint (MaxMemoryUsageMB tenth_config)) (AverageLogSizeMB tenth_config)
     (sint (BatchSize tenth_config)) = Some 17"
  by code_simp

text \<open>
  C6, as amended. Whenever the formula of the specification has a value of at most
  \<open>2\<^sup>5\<^sup>4 - 2\<close>, that is whenever the quotient
  \<^verbatim>\<open>maxMemoryBudgetMB / (avgRecordSizeMB * batchSize)\<close> of the three inputs, as
  \<^verbatim>\<open>float64\<close> computes it, is a number and at most \<open>2\<^sup>5\<^sup>4\<close>,
  \<^verbatim>\<open>getRoutineCount\<close> returns the value of the formula. For 100, 0.001 and 5000
  the formula gives 18 and \<^verbatim>\<open>getRoutineCount\<close> returns 18.
\<close>

theorem getRoutineCount_formula:
  "(valid_f64 (AverageLogSizeMB cfg)
      \<and> workerCount_spec (sint (MaxMemoryUsageMB cfg)) (AverageLogSizeMB cfg)
           (sint (BatchSize cfg)) = Some k
      \<and> k \<le> 2 ^ 54 - 2
      \<longrightarrow> getRoutineCount p cfg = k)
   \<and> workerCount_spec 100 (round_f64 False 1 1000) 5000 = Some 18
   \<and> getRoutineCount p test_config = 18"
  using getRoutineCount_workerCount_spec [of cfg k p] workerCount_spec_test_config
    getRoutineCount_test_config [of p]
  by blast

theorem getRoutineCount_formula_witness:
  "valid_f64 (AverageLogSizeMB tenth_config)
   \<and> workerCount_spec (sint (MaxMemoryUsageMB tenth_config)) (AverageLogSizeMB tenth_config)
        (sint (BatchSize tenth_config)) = Some 17
   \<and> (17::int) \<le> 2 ^ 54 - 2
   \<and> getRoutineCount AMD64 tenth_config = 17
   \<and> getRoutineCount ARM64 tenth_config = 17"
proof -
  from getRoutineCount_formula [of tenth_config 17 AMD64]
    valid_tenth_config workerCount_spec_tenth_config
  have a: "getRoutineCount AMD64 tenth_config = 17" by simp
  from getRoutineCount_formula [of tenth_config 17 ARM64]
    valid_tenth_config workerCount_spec_tenth_config
  have b: "getRoutineCount ARM64 tenth_config = 17" by simp
  from valid_tenth_config workerCount_spec_tenth_config a b show ?thesis by simp
qed

text \<open>
  C6 as stated fails: with a budget of \<open>2\<^sup>5\<^sup>4 + 4\<close> MB, the next
  \<^verbatim>\<open>float64\<close> after \<open>2\<^sup>5\<^sup>4\<close>, for batches of one record of 1 MB, which
  \<^verbatim>\<open>Validate\<close> accepts, the product, the quotient and its floor are exact and
  the formula gives \<open>2\<^sup>5\<^sup>4 + 2\<close>. That is not a \<^verbatim>\<open>float64\<close>:
  the difference that \<^verbatim>\<open>getRoutineCount\<close> computes is rounded to \<open>2\<^sup>5\<^sup>4\<close>,
  which it returns.
\<close>

theorem getRoutineCount_large_budget:
  "Validate large_budget_config = None
   \<and> workerCount_spec (sint (MaxMemoryUsageMB large_budget_config))
        (AverageLogSizeMB large_budget_config) (sint (BatchSize large_budget_config))
        = Some 18014398509481986
   \<and> max 1 (18014398509481988 div (1 * 1) - 2) = (18014398509481986 :: int)
   \<and> getRoutineCount AMD64 large_budget_config = 18014398509481984
   \<and> getRoutineCount ARM64 large_budget_config = 18014398509481984
   \<and> getRoutineCount AMD64 large_budget_config \<noteq> 18014398509481986
   \<and> getRoutineCount ARM64 large_budget_config \<noteq> 18014398509481986"
proof -
  have v: "Validate large_budget_config = None" by code_simp
  have w: "workerCount_spec (sint (MaxMemoryUsageMB large_budget_config))
        (AverageLogSizeMB large_budget_config) (sint (BatchSize large_budget_config))
        = Some 18014398509481986" by code_simp
  have a: "getRoutineCount AMD64 large_budget_config = 18014398509481984" by code_simp
  have b: "getRoutineCount ARM64 large_budget_config = 18014398509481984" by code_simp
  from v w a b show ?thesis by simp
qed

text \<open>
  More values of the formula and of \<^verbatim>\<open>getRoutineCount\<close>, with other batch
  sizes: 250 MB for batches of 1234 records of 750 MB give 1, and 6 MB for batches of
  3 records of 0.1 MB give 17, the \<^verbatim>\<open>float64\<close> quotient being just below 20.
\<close>

lemma getRoutineCount_flags_config:
  "workerCount_spec 250 (f64_of_int 750) 1234 = Some 1 \<and> getRoutineCount p flags_config = 1"
proof -
  have "workerCount_spec 250 (f64_of_int 750) 1234 = Some 1" by code_simp
  moreover have "getRoutineCount p flags_config = 1" by (cases p; code_simp)
  ultimately show ?thesis by simp
qed

lemma getRoutineCount_tenth_config:
  "workerCount_spec 6 (round_f64 False 1 10) 3 = Some 17 \<and> getRoutineCount p tenth_config = 17"
proof -
  have "workerCount_spec 6 (round_f64 False 1 10) 3 = Some 17" by code_simp
  moreover have "getRoutineCount p tenth_config = 17" by (cases p; code_simp)
  ultimately show ?thesis by simp
qed

text \<open>
  The product and the quotient of the formula are those of \<^verbatim>\<open>float64\<close> and not
  of the rational numbers: 0.001 as a \<^verbatim>\<open>float64\<close> is a little more than one
  thousandth, so that the exact quotient of 100 by 5000 times it is below 20, with
  the integer part 19. The product is rounded to 5 and the quotient is 20.
\<close>

lemma test_config_exact_quotient:
  "AverageLogSizeMB test_config = Finite False 4611686018427388 (- 62)
   \<and> 1000 * 4611686018427388 > (2 ^ 62 :: int)
   \<and> (100 * 2 ^ 62) div (4611686018427388 * 5000) = (19 :: int)
   \<and> fmul (AverageLogSizeMB test_config) (f64_of_int 5000) = f64_of_int 5
   \<and> quotient test_config = f64_of_int 20"
proof -
  have 1: "AverageLogSizeMB test_config = Finite False 4611686018427388 (- 62)" by code_simp
  have 2: "fmul (AverageLogSizeMB test_config) (f64_of_int 5000) = f64_of_int 5" by code_simp
  have 3: "quotient test_config = f64_of_int 20" by code_simp
  from 1 2 3 show ?thesis by simp
qed

lemma quotient_small_budget:
  "quotient small_budget_config = Finite False 7205759403792794 (- 55)"
  by code_simp

lemma valid_small_budget: "valid_f64 (AverageLogSizeMB small_budget_config)"
  by code_simp

text \<open>
  What the maximum with 1 achieves: whenever the \<^verbatim>\<open>float64\<close> value that is
  converted is a number in the range of \<^verbatim>\<open>int\<close>, \<^verbatim>\<open>getRoutineCount\<close>
  returns at least 1. That is so whenever the quotient is finite and at most
  \<open>2\<^sup>5\<^sup>4\<close>; for a quotient below 1, a budget smaller than the footprint of one
  batch, it returns 1.
\<close>

lemma getRoutineCount_clamped:
  assumes "valid_f64 (AverageLogSizeMB cfg)"
  shows "(trunc_f64 (routines_f64 cfg) \<noteq> None \<longrightarrow> 1 \<le> getRoutineCount p cfg)
       \<and> ((\<exists>s m e. quotient cfg = Finite s m e) \<and> floor_of (quotient cfg) \<le> 2 ^ 54
            \<longrightarrow> 1 \<le> getRoutineCount p cfg)
       \<and> ((\<exists>s m e. quotient cfg = Finite s m e) \<and> floor_of (quotient cfg) < 1
            \<longrightarrow> getRoutineCount p cfg = 1)"
proof -
  have nq: "nonneg (fsub (Floor (quotient cfg)) reservedRoutines)" by (rule nonneg_fsub)
  have 1: "trunc_f64 (routines_f64 cfg) \<noteq> None \<longrightarrow> 1 \<le> getRoutineCount p cfg"
  proof
    assume "trunc_f64 (routines_f64 cfg) \<noteq> None"
    then obtain v where v: "trunc_f64 (routines_f64 cfg) = Some v" by blast
    then have "trunc_f64 (Max_f64 (Finite False 4503599627370496 (- 52))
                 (fsub (Floor (quotient cfg)) reservedRoutines)) = Some v"
      by (simp add: routines_f64_def one_f64)
    with nq have "1 \<le> v" by (rule trunc_Max_one)
    then show "1 \<le> getRoutineCount p cfg"
      using v by (simp add: getRoutineCount_def int_of_f64_def)
  qed
  have 2: "(\<exists>s m e. quotient cfg = Finite s m e) \<and> floor_of (quotient cfg) \<le> 2 ^ 54
            \<longrightarrow> 1 \<le> getRoutineCount p cfg"
    using getRoutineCount_exact [OF assms, of _ _ _ p] by auto
  have 3: "(\<exists>s m e. quotient cfg = Finite s m e) \<and> floor_of (quotient cfg) < 1
            \<longrightarrow> getRoutineCount p cfg = 1"
  proof
    assume a: "(\<exists>s m e. quotient cfg = Finite s m e) \<and> floor_of (quotient cfg) < 1"
    then obtain s m e where q: "quotient cfg = Finite s m e" by blast
    from a have "floor_of (quotient cfg) \<le> 2 ^ 54" by simp
    from getRoutineCount_exact [OF assms q this, of p] a
    show "getRoutineCount p cfg = 1" by simp
  qed
  from 1 2 3 show ?thesis by blast
qed

lemma getRoutineCount_small_budget: "getRoutineCount p small_budget_config = 1"
proof -
  have f: "floor_of (quotient small_budget_config) = 0"
    unfolding quotient_small_budget by simp
  have e: "\<exists>s m e. quotient small_budget_config = Finite s m e"
    using quotient_small_budget by blast
  from getRoutineCount_clamped [OF valid_small_budget, of p] e f show ?thesis by simp
qed

text \<open>
  The conversion of a value that is not a number in the range of \<^verbatim>\<open>int\<close>
  undoes the maximum. With an average size of NaN the quotient is NaN.
\<close>

lemma getRoutineCount_nan_config:
  "getRoutineCount p nan_config = (case p of AMD64 \<Rightarrow> - 9223372036854775808 | ARM64 \<Rightarrow> 0)"
proof (cases p)
  case AMD64
  have "getRoutineCount AMD64 nan_config = - 9223372036854775808" by code_simp
  with AMD64 show ?thesis by simp
next
  case ARM64
  have "getRoutineCount ARM64 nan_config = 0" by code_simp
  with ARM64 show ?thesis by simp
qed

lemma Validate_nan_config: "Validate nan_config = None"
  by code_simp

text \<open>
  C7. \<^verbatim>\<open>getRoutineCount\<close> does not return at least 1 for every combination of
  inputs: for the average size NaN with the default budget and batch size, which
  \<^verbatim>\<open>Validate\<close> accepts, it returns \<open>-2\<^sup>6\<^sup>3\<close> on amd64 and 0 on arm64. The
  maximum with 1 is taken before the conversion to \<^verbatim>\<open>int\<close>, and
  \<^verbatim>\<open>math.Max(1, NaN)\<close> is NaN.
\<close>

theorem getRoutineCount_below_one:
  "Validate nan_config = None
   \<and> getRoutineCount AMD64 nan_config = - 9223372036854775808
   \<and> getRoutineCount ARM64 nan_config = 0
   \<and> getRoutineCount AMD64 nan_config < 1
   \<and> getRoutineCount ARM64 nan_config < 1"
  using Validate_nan_config getRoutineCount_nan_config [of AMD64]
    getRoutineCount_nan_config [of ARM64]
  by simp

text \<open>
  The same with a quotient that is a number beyond the range of \<^verbatim>\<open>int\<close>, on
  amd64: an average size of \<open>2\<^sup>-\<^sup>7\<^sup>0\<close> MB, which \<^verbatim>\<open>Validate\<close> accepts, gives
  a quotient of about \<open>2.4 \<sqdot> 10\<^sup>1\<^sup>9\<close>. And with a budget and an average size of zero,
  which \<^verbatim>\<open>Validate\<close> rejects but \<^verbatim>\<open>Load\<close> returns, the quotient is NaN.
\<close>

lemma getRoutineCount_tiny_config:
  "Validate tiny_config = None
   \<and> valid_f64 (AverageLogSizeMB tiny_config)
   \<and> quotient tiny_config = Finite False 5764607523034235 12
   \<and> getRoutineCount AMD64 tiny_config = - 9223372036854775808
   \<and> getRoutineCount ARM64 tiny_config = 9223372036854775807"
proof -
  have 1: "Validate tiny_config = None" by code_simp
  have 2: "valid_f64 (AverageLogSizeMB tiny_config)" by code_simp
  have 3: "quotient tiny_config = Finite False 5764607523034235 12" by code_simp
  have 4: "getRoutineCount AMD64 tiny_config = - 9223372036854775808" by code_simp
  have 5: "getRoutineCount ARM64 tiny_config = 9223372036854775807" by code_simp
  from 1 2 3 4 5 show ?thesis by simp
qed

lemma getRoutineCount_zero_config:
  "Validate zero_config = Some BadMaxMemoryUsageMB
   \<and> getRoutineCount AMD64 zero_config = - 9223372036854775808
   \<and> getRoutineCount ARM64 zero_config = 0"
proof -
  have v: "Validate zero_config = Some BadMaxMemoryUsageMB" by code_simp
  have a: "getRoutineCount AMD64 zero_config = - 9223372036854775808" by code_simp
  have b: "getRoutineCount ARM64 zero_config = 0" by code_simp
  from v a b show ?thesis by simp
qed

text \<open>
  With a count below 1 the loop of \<^verbatim>\<open>main\<close> that starts the parse routines
  starts none, and the pipeline cannot take a step: the reader's first send finds no
  routine to receive it.
\<close>

lemma no_parse_routine_no_step:
  "step env a (init (nat (getRoutineCount p nan_config)) 5000 good_file) = None"
proof -
  have "nat (getRoutineCount p nan_config) = 0"
    by (cases p) (simp_all add: getRoutineCount_nan_config)
  then show ?thesis
    by (cases a) (simp_all add: init_def ReadAndBatch_good_file running_def)
qed

end
